theory Spec2Isabelle
  imports Complex_Main "HOL-Library.Sublist"
begin

section \<open>Simulated time\<close>

text \<open>
  The handler keeps the raw engine timestamp in \<^verbatim>\<open>__current_time\<close> (a Python
  float) and exposes it through the property \<^verbatim>\<open>current_time\<close>, which is
  \<^verbatim>\<open>float(f"{self.__current_time:.1f}")\<close>. Times are modelled as rationals (every
  finite float is one). The format \<^verbatim>\<open>.1f\<close> rounds the exact value to one
  decimal place, ties to the even digit; the conversion of that decimal back to the
  nearest float is not modelled.
\<close>

definition round_half_even :: "rat \<Rightarrow> int" where
  "round_half_even x =
     (let f = \<lfloor>x\<rfloor>; d = x - of_int f
      in if d < 1 / 2 then f
         else if 1 / 2 < d then f + 1
         else if even f then f else f + 1)"

definition round1 :: "rat \<Rightarrow> rat" where
  "round1 x = of_int (round_half_even (x * 10)) / 10"

section \<open>Exceptions\<close>

datatype error =
    RuntimeError
  | ValueError
  | TypeError
  | LookupError
  | SystemError
  | AssertionError

section \<open>Hosts and the platform (resources.py, not part of the sources)\<close>

datatype host_state = Idle | SwitchingOn | Sleeping | SwitchingOff | Computing

text \<open>
  Modelled from the spec: the class Host of resources.py. Section 3 gives a host its
  activity state (idle, computing, sleeping, switching-on, switching-off), its current
  power state out of a catalog, its assigned jobs, and a designated default and sleep
  power state. Power states are named by their ids. The host id is the key under which
  the platform holds the host.
\<close>

record host =
  hstate :: host_state
  pstate :: "nat option"
  pstates :: "nat list"
  default_pstate :: "nat option"
  sleep_pstate :: "nat option"
  host_jobs :: "string list"

definition is_idle :: "host \<Rightarrow> bool" where
  "is_idle h = (hstate h = Idle)"

definition is_sleeping :: "host \<Rightarrow> bool" where
  "is_sleeping h = (hstate h = Sleeping)"

definition is_computing :: "host \<Rightarrow> bool" where
  "is_computing h = (hstate h = Computing)"

definition is_switching_on :: "host \<Rightarrow> bool" where
  "is_switching_on h = (hstate h = SwitchingOn)"

definition is_switching_off :: "host \<Rightarrow> bool" where
  "is_switching_off h = (hstate h = SwitchingOff)"

text \<open>
  Modelled from the spec: Host.get_default_pstate and Host.get_sleep_pstate. The
  docstrings of switch_on and switch_off name the failure: RuntimeError when no such
  power state is defined in the platform.
\<close>

definition get_default_pstate :: "host \<Rightarrow> error + nat" where
  "get_default_pstate h =
     (case default_pstate h of None \<Rightarrow> Inl RuntimeError | Some p \<Rightarrow> Inr p)"

definition get_sleep_pstate :: "host \<Rightarrow> error + nat" where
  "get_sleep_pstate h =
     (case sleep_pstate h of None \<Rightarrow> Inl RuntimeError | Some p \<Rightarrow> Inr p)"

text \<open>
  Modelled from the spec: Host._switch_on and Host._switch_off. Section 4.3: switch-on
  requires the activity state sleeping, switch-off requires idle, and both are purely
  requested locally: the activity state does not change synchronously, it changes when
  the engine reports the state-change event. An illegal transition is a RuntimeError
  (docstrings of switch_on and switch_off).
\<close>

definition host_switch_on :: "host \<Rightarrow> error + host" where
  "host_switch_on h = (if \<not> is_sleeping h then Inl RuntimeError else Inr h)"

definition host_switch_off :: "host \<Rightarrow> error + host" where
  "host_switch_off h = (if \<not> is_idle h then Inl RuntimeError else Inr h)"

text \<open>
  Modelled from the spec: Host._set_off and Host._set_on. Section 4.3: a host that was
  switching off is marked off (sleep power state, activity sleeping); a host that was
  switching on is marked on (idle, default power state).
\<close>

definition host_set_off :: "host \<Rightarrow> error + host" where
  "host_set_off h =
     (case get_sleep_pstate h of
        Inl e \<Rightarrow> Inl e
      | Inr p \<Rightarrow> Inr (h\<lparr>hstate := Sleeping, pstate := Some p\<rparr>))"

definition host_set_on :: "host \<Rightarrow> error + host" where
  "host_set_on h =
     (case get_default_pstate h of
        Inl e \<Rightarrow> Inl e
      | Inr p \<Rightarrow> Inr (h\<lparr>hstate := Idle, pstate := Some p\<rparr>))"

text \<open>
  Modelled from the spec: Host._set_computation_pstate. Sections 4.1 and 4.3: the host
  must be idle or computing (else an illegal transition, RuntimeError) and the power
  state id must exist in the catalog (else a lookup error).
\<close>

definition host_set_computation_pstate :: "host \<Rightarrow> nat \<Rightarrow> error + host" where
  "host_set_computation_pstate h p =
     (if \<not> (is_idle h \<or> is_computing h) then Inl RuntimeError
      else if p \<notin> set (pstates h) then Inl LookupError
      else Inr (h\<lparr>pstate := Some p\<rparr>))"

text \<open>
  Modelled from the spec: Host._allocate. Section 4.1: allocate binds the host to the
  job.
\<close>

definition host_allocate :: "string \<Rightarrow> host \<Rightarrow> host" where
  "host_allocate jid h = h\<lparr>host_jobs := host_jobs h @ [jid]\<rparr>"

section \<open>Jobs (jobs.py, not part of the sources)\<close>

datatype job_state = Submitted | Allocated | Running | Completed | Killed | Rejected

text \<open>
  Modelled from the spec: the class Job of jobs.py. Section 3: a unique id, the current
  state, the allocation (set at most once), submission, start and completion time.
  Section 4.2: submitted, then allocated (requires submitted), then running, then
  completed or killed (terminate requires running). A job is runnable when it is
  allocated and not yet started.
\<close>

record job =
  job_id :: string
  jstate :: job_state
  allocation :: "nat list option"
  subtime :: "rat option"
  start_time :: "rat option"
  stop_time :: "rat option"

definition is_submitted :: "job \<Rightarrow> bool" where
  "is_submitted j = (jstate j = Submitted)"

definition is_runnable :: "job \<Rightarrow> bool" where
  "is_runnable j = (jstate j = Allocated)"

definition job_submit :: "rat \<Rightarrow> job \<Rightarrow> job" where
  "job_submit t j = j\<lparr>jstate := Submitted, subtime := Some t\<rparr>"

definition job_allocate :: "nat list \<Rightarrow> job \<Rightarrow> error + job" where
  "job_allocate hs j =
     (if \<not> is_submitted j then Inl RuntimeError
      else Inr (j\<lparr>jstate := Allocated, allocation := Some hs\<rparr>))"

definition job_start :: "rat \<Rightarrow> job \<Rightarrow> job" where
  "job_start t j = j\<lparr>jstate := Running, start_time := Some t\<rparr>"

definition job_terminate :: "rat \<Rightarrow> job_state \<Rightarrow> job \<Rightarrow> error + job" where
  "job_terminate t st j =
     (if jstate j \<noteq> Running then Inl RuntimeError
      else Inr (j\<lparr>jstate := st, stop_time := Some t\<rparr>))"

section \<open>Protocol: requests, events, messages (protocol.py, not part of the sources)\<close>

text \<open>
  Modelled from the spec: the request classes of protocol.py. Section 6: execute-job
  (job id and host ids), kill-job, reject-job, set-resource-state (host ids and
  power-state id), call-me-later (target time). Every request carries the timestamp it
  was created with, first. Section 4.4: a set-resource-state request holds a host set,
  and add_resource adds a host id to it.
\<close>

datatype request =
    CallMeLater rat rat
  | KillJob rat string
  | ExecuteJob rat string "nat list"
  | RejectJob rat string
  | SetResourceState rat "nat set" nat

fun timestamp :: "request \<Rightarrow> rat" where
  "timestamp (CallMeLater t target) = t"
| "timestamp (KillJob t j) = t"
| "timestamp (ExecuteJob t j hs) = t"
| "timestamp (RejectJob t j) = t"
| "timestamp (SetResourceState t hs p) = t"

fun add_resource :: "nat \<Rightarrow> request \<Rightarrow> request" where
  "add_resource h (SetResourceState t hs p) = SetResourceState t (insert h hs) p"
| "add_resource h r = r"

text \<open>
  Modelled from the spec: the event classes of protocol.py. Section 6: simulation-begins
  (carries the platform), simulation-ends, job-submitted, job-completed (carries the
  outcome), resource-state-changed (host ids and resulting power-state id), call-me-later
  fired, no-more-jobs-to-submit notification. Every event carries its timestamp, first.
  An event of any other type has no handler.
\<close>

datatype event =
    SimulationBegins rat "nat \<rightharpoonup> host"
  | SimulationEnds rat
  | JobCompleted rat string job_state
  | JobSubmitted rat job
  | ResourceStateChanged rat "nat list" nat
  | RequestedCall rat
  | NoMoreStaticJobToSubmit rat
  | OtherEvent rat

fun event_timestamp :: "event \<Rightarrow> rat" where
  "event_timestamp (SimulationBegins t p) = t"
| "event_timestamp (SimulationEnds t) = t"
| "event_timestamp (JobCompleted t j st) = t"
| "event_timestamp (JobSubmitted t j) = t"
| "event_timestamp (ResourceStateChanged t hs p) = t"
| "event_timestamp (RequestedCall t) = t"
| "event_timestamp (NoMoreStaticJobToSubmit t) = t"
| "event_timestamp (OtherEvent t) = t"

text \<open>
  A message is a timestamped envelope: an inbound one holds events, an outbound one
  (BatsimMessage(now, requests)) holds requests.
\<close>

record in_message =
  now :: rat
  events :: "event list"

type_synonym out_message = "rat \<times> request list"

section \<open>Callbacks\<close>

text \<open>
  A callback is a Python callable taking the current time. Two kinds occur: the internal
  function \<^verbatim>\<open>unflag\<close> of proceed_time, which clears \<^verbatim>\<open>__wait_callback\<close>, and
  the callables of the caller, which are opaque and taken not to call back into the
  handler. Every call of a callback is recorded, with its argument, in the log
  \<^verbatim>\<open>invoked\<close>, which is not a field of the Python class.
  \<^verbatim>\<open>NotCallable\<close> stands for an argument of set_callback that is not callable.
\<close>

datatype callback = Unflag | UserCallback nat

datatype call_arg = Callable callback | NotCallable

section \<open>The handler state\<close>

text \<open>
  The fields of SimulatorHandler. \<^verbatim>\<open>simulator\<close> is whether the engine process exists
  (\<^verbatim>\<open>__simulator is not None\<close>). The transport (NetworkHandler) is the list of engine
  messages still to be received and the list of messages sent so far.
\<close>

record handler =
  network_inbox :: "in_message list"
  network_outbox :: "out_message list"
  raw_time :: rat
  simulator :: bool
  simulation_time :: "rat option"
  platform :: "(nat \<rightharpoonup> host) option"
  no_more_jobs_to_submit :: bool
  batsim_requests :: "request list"
  jobs :: "job list"
  callbacks :: "rat \<rightharpoonup> callback list"
  wait_callback :: bool
  invoked :: "(callback \<times> rat) list"

text \<open>
  What a call does: it returns, it raises an exception (the state at the raise is kept),
  or it never returns because \<^verbatim>\<open>recv\<close> waits for an engine message that does not
  come (the state at that point is kept).
\<close>

datatype 'a outcome = Returns 'a | Raises error handler | Blocks handler

fun and_then :: "'a outcome \<Rightarrow> ('a \<Rightarrow> 'b outcome) \<Rightarrow> 'b outcome" where
  "and_then (Returns x) f = f x"
| "and_then (Raises e s) f = Raises e s"
| "and_then (Blocks s) f = Blocks s"

definition handler_init :: "in_message list \<Rightarrow> handler" where
  "handler_init msgs =
     \<lparr>network_inbox = msgs, network_outbox = [], raw_time = 0, simulator = False,
      simulation_time = None, platform = None, no_more_jobs_to_submit = False,
      batsim_requests = [], jobs = [], callbacks = Map.empty, wait_callback = False,
      invoked = []\<rparr>"

definition is_running :: "handler \<Rightarrow> bool" where
  "is_running s = simulator s"

definition current_time :: "handler \<Rightarrow> rat" where
  "current_time s = round1 (raw_time s)"

definition is_submitter_finished :: "handler \<Rightarrow> bool" where
  "is_submitter_finished s = no_more_jobs_to_submit s"

section \<open>The request batcher\<close>

fun is_call_me_later_at :: "rat \<Rightarrow> request \<Rightarrow> bool" where
  "is_call_me_later_at a (CallMeLater t b) = (b = a)"
| "is_call_me_later_at a r = False"

definition set_batsim_call_me_later :: "handler \<Rightarrow> rat \<Rightarrow> handler" where
  "set_batsim_call_me_later s a =
     (if a \<le> current_time s then s
      else if list_ex (is_call_me_later_at a) (batsim_requests s) then s
      else s\<lparr>batsim_requests :=
               batsim_requests s @ [CallMeLater (current_time s) a]\<rparr>)"

text \<open>
  \<^verbatim>\<open>get_old_request\<close>: the first pending request whose timestamp is the current
  time, that is a set-resource-state request, and whose state is the wanted one.
\<close>

fun is_old_request :: "rat \<Rightarrow> nat \<Rightarrow> request \<Rightarrow> bool" where
  "is_old_request ct p (SetResourceState t hs st) = (t = ct \<and> st = p)"
| "is_old_request ct p r = False"

text \<open>
  \<^verbatim>\<open>request.add_resource(host_id)\<close> on the request that get_old_request found; the
  request is changed where it stands in the list. None when there is no such request.
\<close>

fun add_to_old_request :: "rat \<Rightarrow> nat \<Rightarrow> nat \<Rightarrow> request list \<Rightarrow> request list option" where
  "add_to_old_request ct p h [] = None"
| "add_to_old_request ct p h (r # rs) =
     (if is_old_request ct p r then Some (add_resource h r # rs)
      else map_option ((#) r) (add_to_old_request ct p h rs))"

definition set_batsim_host_pstate :: "handler \<Rightarrow> nat \<Rightarrow> nat \<Rightarrow> handler" where
  "set_batsim_host_pstate s host_id pstate_id =
     (case add_to_old_request (current_time s) pstate_id host_id (batsim_requests s) of
        Some rs \<Rightarrow> s\<lparr>batsim_requests := rs\<rparr>
      | None \<Rightarrow>
          s\<lparr>batsim_requests :=
              batsim_requests s @ [SetResourceState (current_time s) {host_id} pstate_id]\<rparr>)"

section \<open>Power actions\<close>

text \<open>
  \<^verbatim>\<open>self.__platform.get(h_id)\<close>: a lookup error when the platform has no such host.
  Every caller has checked that the platform is loaded, so the first branch is never
  taken. A host is a mutable object: \<^verbatim>\<open>platform_put\<close> writes the changed host back.
\<close>

definition platform_get :: "handler \<Rightarrow> nat \<Rightarrow> error + host" where
  "platform_get s h_id =
     (case platform s of
        None \<Rightarrow> Inl SystemError
      | Some m \<Rightarrow> (case m h_id of None \<Rightarrow> Inl LookupError | Some h \<Rightarrow> Inr h))"

definition platform_put :: "nat \<Rightarrow> host \<Rightarrow> handler \<Rightarrow> handler" where
  "platform_put h_id h s = s\<lparr>platform := map_option (\<lambda>m. m(h_id \<mapsto> h)) (platform s)\<rparr>"

fun switch_on_hosts :: "handler \<Rightarrow> nat list \<Rightarrow> handler outcome" where
  "switch_on_hosts s [] = Returns s"
| "switch_on_hosts s (h_id # rest) =
     (case platform_get s h_id of
        Inl e \<Rightarrow> Raises e s
      | Inr host \<Rightarrow>
          (case host_switch_on host of
             Inl e \<Rightarrow> Raises e s
           | Inr host' \<Rightarrow>
               (case get_default_pstate host' of
                  Inl e \<Rightarrow> Raises e (platform_put h_id host' s)
                | Inr p \<Rightarrow>
                    switch_on_hosts
                      (set_batsim_host_pstate (platform_put h_id host' s) h_id p) rest)))"

definition switch_on :: "handler \<Rightarrow> nat list \<Rightarrow> handler outcome" where
  "switch_on s hosts_id =
     (if \<not> is_running s then Raises RuntimeError s
      else if platform s = None then Raises SystemError s
      else switch_on_hosts s hosts_id)"

fun switch_off_hosts :: "handler \<Rightarrow> nat list \<Rightarrow> handler outcome" where
  "switch_off_hosts s [] = Returns s"
| "switch_off_hosts s (h_id # rest) =
     (case platform_get s h_id of
        Inl e \<Rightarrow> Raises e s
      | Inr host \<Rightarrow>
          (case host_switch_off host of
             Inl e \<Rightarrow> Raises e s
           | Inr host' \<Rightarrow>
               (case get_sleep_pstate host' of
                  Inl e \<Rightarrow> Raises e (platform_put h_id host' s)
                | Inr p \<Rightarrow>
                    switch_off_hosts
                      (set_batsim_host_pstate (platform_put h_id host' s) h_id p) rest)))"

definition switch_off :: "handler \<Rightarrow> nat list \<Rightarrow> handler outcome" where
  "switch_off s hosts_id =
     (if \<not> is_running s then Raises RuntimeError s
      else if platform s = None then Raises SystemError s
      else switch_off_hosts s hosts_id)"

definition switch_power_state :: "handler \<Rightarrow> nat \<Rightarrow> nat \<Rightarrow> handler outcome" where
  "switch_power_state s host_id pstate_id =
     (if \<not> is_running s then Raises RuntimeError s
      else if platform s = None then Raises SystemError s
      else (case platform_get s host_id of
              Inl e \<Rightarrow> Raises e s
            | Inr host \<Rightarrow>
                (case host_set_computation_pstate host pstate_id of
                   Inl e \<Rightarrow> Raises e s
                 | Inr host' \<Rightarrow>
                     (case pstate host' of
                        None \<Rightarrow> Raises AssertionError (platform_put host_id host' s)
                      | Some p \<Rightarrow>
                          Returns (set_batsim_host_pstate
                                     (platform_put host_id host' s) host_id p)))))"

section \<open>Starting runnable jobs\<close>

text \<open>
  The inner loop of \<^verbatim>\<open>__start_runnable_jobs\<close> over \<^verbatim>\<open>job.allocation\<close>: it
  clears \<^verbatim>\<open>is_ready\<close> at a host that is not idle and switches a sleeping host on.
\<close>

fun check_hosts :: "handler \<Rightarrow> nat list \<Rightarrow> bool \<Rightarrow> (bool \<times> handler) outcome" where
  "check_hosts s [] is_ready = Returns (is_ready, s)"
| "check_hosts s (h_id # rest) is_ready =
     (case platform_get s h_id of
        Inl e \<Rightarrow> Raises e s
      | Inr host \<Rightarrow>
          (let is_ready' = (if \<not> is_idle host then False else is_ready)
           in if is_sleeping host
              then (case switch_on s [h_id] of
                      Returns s' \<Rightarrow> check_hosts s' rest is_ready'
                    | Raises e s' \<Rightarrow> Raises e s'
                    | Blocks s' \<Rightarrow> Blocks s')
              else check_hosts s rest is_ready'))"

text \<open>
  The body of the loop over \<^verbatim>\<open>runnable_jobs\<close>, for the job at position \<open>i\<close> of
  the registry: a job is a mutable object, so \<^verbatim>\<open>job._start\<close> changes it where it
  stands in \<^verbatim>\<open>__jobs\<close>.
\<close>

definition start_job :: "handler \<Rightarrow> nat \<Rightarrow> handler outcome" where
  "start_job s i =
     (let job = jobs s ! i in
      case allocation job of
        None \<Rightarrow> Raises SystemError s
      | Some alloc \<Rightarrow>
          if alloc = [] then Raises SystemError s
          else (case check_hosts s alloc True of
                  Returns (is_ready, s') \<Rightarrow>
                    if is_ready
                    then Returns
                           (s'\<lparr>jobs := (jobs s')[i := job_start (current_time s') (jobs s' ! i)],
                               batsim_requests :=
                                 batsim_requests s' @
                                 [ExecuteJob (current_time s') (job_id job) alloc]\<rparr>)
                    else Returns s'
                | Raises e s' \<Rightarrow> Raises e s'
                | Blocks s' \<Rightarrow> Blocks s'))"

fun start_jobs :: "handler \<Rightarrow> nat list \<Rightarrow> handler outcome" where
  "start_jobs s [] = Returns s"
| "start_jobs s (i # rest) =
     (case start_job s i of
        Returns s' \<Rightarrow> start_jobs s' rest
      | Raises e s' \<Rightarrow> Raises e s'
      | Blocks s' \<Rightarrow> Blocks s')"

text \<open>
  \<^verbatim>\<open>[j for j in self.__jobs if j.is_runnable]\<close>, as positions in the registry.
\<close>

definition runnable_jobs :: "handler \<Rightarrow> nat list" where
  "runnable_jobs s = filter (\<lambda>i. is_runnable (jobs s ! i)) [0..<length (jobs s)]"

definition start_runnable_jobs :: "handler \<Rightarrow> handler outcome" where
  "start_runnable_jobs s =
     (if \<not> is_running s then Returns s
      else if platform s = None then Raises SystemError s
      else start_jobs s (runnable_jobs s))"

section \<open>Job actions\<close>

text \<open>
  \<^verbatim>\<open>next((j for j in self.__jobs if j.id == job_id), None)\<close>, as the position of
  the job found, and \<^verbatim>\<open>self.__jobs.remove(job)\<close> of the job at a position.
\<close>

fun job_index :: "string \<Rightarrow> job list \<Rightarrow> nat option" where
  "job_index jid [] = None"
| "job_index jid (j # js) =
     (if job_id j = jid then Some 0 else map_option Suc (job_index jid js))"

definition remove_at :: "nat \<Rightarrow> 'a list \<Rightarrow> 'a list" where
  "remove_at i xs = take i xs @ drop (Suc i) xs"

fun allocate_hosts :: "handler \<Rightarrow> string \<Rightarrow> nat list \<Rightarrow> handler outcome" where
  "allocate_hosts s jid [] = Returns s"
| "allocate_hosts s jid (h_id # rest) =
     (case platform_get s h_id of
        Inl e \<Rightarrow> Raises e s
      | Inr host \<Rightarrow> allocate_hosts (platform_put h_id (host_allocate jid host) s) jid rest)"

definition allocate :: "handler \<Rightarrow> string \<Rightarrow> nat list \<Rightarrow> handler outcome" where
  "allocate s jid hosts_id =
     (if \<not> is_running s then Raises RuntimeError s
      else if platform s = None then Raises SystemError s
      else (case job_index jid (jobs s) of
              None \<Rightarrow> Raises LookupError s
            | Some i \<Rightarrow>
                (case allocate_hosts s jid hosts_id of
                   Returns s' \<Rightarrow>
                     (case job_allocate hosts_id (jobs s' ! i) of
                        Inl e \<Rightarrow> Raises e s'
                      | Inr j \<Rightarrow> start_runnable_jobs (s'\<lparr>jobs := (jobs s')[i := j]\<rparr>))
                 | Raises e s' \<Rightarrow> Raises e s'
                 | Blocks s' \<Rightarrow> Blocks s')))"

definition kill_job :: "handler \<Rightarrow> string \<Rightarrow> handler outcome" where
  "kill_job s jid =
     (if \<not> is_running s then Raises RuntimeError s
      else (case job_index jid (jobs s) of
              None \<Rightarrow> Raises LookupError s
            | Some i \<Rightarrow>
                Returns (s\<lparr>jobs := remove_at i (jobs s),
                           batsim_requests :=
                             batsim_requests s @ [KillJob (current_time s) jid]\<rparr>)))"

definition reject_job :: "handler \<Rightarrow> string \<Rightarrow> handler outcome" where
  "reject_job s jid =
     (if \<not> is_running s then Raises RuntimeError s
      else (case job_index jid (jobs s) of
              None \<Rightarrow> Raises LookupError s
            | Some i \<Rightarrow>
                if \<not> is_submitted (jobs s ! i) then Raises RuntimeError s
                else Returns (s\<lparr>jobs := remove_at i (jobs s),
                                batsim_requests :=
                                  batsim_requests s @ [RejectJob (current_time s) jid]\<rparr>)))"

section \<open>Callbacks and close\<close>

text \<open>
  \<^verbatim>\<open>self.__callbacks[at].append(call)\<close> on a defaultdict(list): a missing key
  starts from the empty list.
\<close>

definition callbacks_at :: "handler \<Rightarrow> rat \<Rightarrow> callback list" where
  "callbacks_at s a = (case callbacks s a of None \<Rightarrow> [] | Some cs \<Rightarrow> cs)"

definition set_callback :: "handler \<Rightarrow> rat \<Rightarrow> call_arg \<Rightarrow> handler outcome" where
  "set_callback s a call =
     (if \<not> is_running s then Raises RuntimeError s
      else if a \<le> current_time s then Raises ValueError s
      else (case call of
              NotCallable \<Rightarrow> Raises TypeError s
            | Callable c \<Rightarrow>
                Returns (set_batsim_call_me_later
                           (s\<lparr>callbacks := (callbacks s)(a \<mapsto> callbacks_at s a @ [c])\<rparr>) a)))"

text \<open>
  The notification \<^verbatim>\<open>dispatch(SimulatorEvent.SIMULATION_ENDS, self)\<close> goes to
  subscribers outside the handler and is not part of the state.
\<close>

definition close :: "handler \<Rightarrow> handler" where
  "close s =
     (if \<not> is_running s then s
      else s\<lparr>simulator := False, simulation_time := None,
             batsim_requests := [], callbacks := Map.empty\<rparr>)"

section \<open>Handlers of the engine's events\<close>

definition on_batsim_simulation_begins :: "handler \<Rightarrow> (nat \<rightharpoonup> host) \<Rightarrow> handler" where
  "on_batsim_simulation_begins s p = s\<lparr>platform := Some p\<rparr>"

definition on_batsim_simulation_ends :: "handler \<Rightarrow> handler" where
  "on_batsim_simulation_ends s =
     close (if simulator s
            then s\<lparr>network_outbox := network_outbox s @ [(current_time s, [])]\<rparr>
            else s)"

text \<open>
  The if/elif chain of \<^verbatim>\<open>__on_batsim_host_state_changed\<close> for one host.
\<close>

definition apply_state_change :: "host \<Rightarrow> nat \<Rightarrow> error + host" where
  "apply_state_change h st =
     (if is_switching_off h then host_set_off h
      else if is_switching_on h then host_set_on h
      else if (is_idle h \<or> is_computing h) \<and> pstate h \<noteq> Some st
        then host_set_computation_pstate h st
      else Inr h)"

fun host_state_changed_hosts :: "handler \<Rightarrow> nat list \<Rightarrow> nat \<Rightarrow> handler outcome" where
  "host_state_changed_hosts s [] st = Returns s"
| "host_state_changed_hosts s (h_id # rest) st =
     (case platform_get s h_id of
        Inl e \<Rightarrow> Raises e s
      | Inr h \<Rightarrow>
          (case pstate h of
             None \<Rightarrow> Raises AssertionError s
           | Some p \<Rightarrow>
               (case apply_state_change h st of
                  Inl e \<Rightarrow> Raises e s
                | Inr h' \<Rightarrow>
                    if pstate h' \<noteq> Some st
                    then Raises SystemError (platform_put h_id h' s)
                    else host_state_changed_hosts (platform_put h_id h' s) rest st)))"

definition on_batsim_host_state_changed :: "handler \<Rightarrow> nat list \<Rightarrow> nat \<Rightarrow> handler outcome" where
  "on_batsim_host_state_changed s resources st =
     (if platform s = None then Raises SystemError s
      else (case host_state_changed_hosts s resources st of
              Returns s' \<Rightarrow> start_runnable_jobs s'
            | Raises e s' \<Rightarrow> Raises e s'
            | Blocks s' \<Rightarrow> Blocks s'))"

text \<open>
  \<^verbatim>\<open>callback(self.current_time)\<close>: the call is logged with its argument, and
  \<^verbatim>\<open>unflag\<close> clears \<^verbatim>\<open>__wait_callback\<close>.
\<close>

fun invoke :: "handler \<Rightarrow> callback \<Rightarrow> handler" where
  "invoke s Unflag =
     s\<lparr>wait_callback := False, invoked := invoked s @ [(Unflag, current_time s)]\<rparr>"
| "invoke s (UserCallback n) =
     s\<lparr>invoked := invoked s @ [(UserCallback n, current_time s)]\<rparr>"

definition on_batsim_requested_call :: "handler \<Rightarrow> handler" where
  "on_batsim_requested_call s =
     (case callbacks s (current_time s) of
        None \<Rightarrow> s
      | Some cs \<Rightarrow>
          (let s' = foldl invoke s cs
           in s'\<lparr>callbacks := (callbacks s')(current_time s' := None)\<rparr>))"

definition on_batsim_job_submitted :: "handler \<Rightarrow> job \<Rightarrow> handler" where
  "on_batsim_job_submitted s j = s\<lparr>jobs := jobs s @ [job_submit (current_time s) j]\<rparr>"

definition on_batsim_job_completed :: "handler \<Rightarrow> string \<Rightarrow> job_state \<Rightarrow> handler outcome" where
  "on_batsim_job_completed s jid st =
     (case job_index jid (jobs s) of
        None \<Rightarrow> Raises SystemError s
      | Some i \<Rightarrow>
          (case job_terminate (current_time s) st (jobs s ! i) of
             Inl e \<Rightarrow> Raises e s
           | Inr j \<Rightarrow> start_runnable_jobs (s\<lparr>jobs := remove_at i (jobs s)\<rparr>)))"

definition on_batsim_no_more_jobs_to_submit :: "handler \<Rightarrow> handler" where
  "on_batsim_no_more_jobs_to_submit s = s\<lparr>no_more_jobs_to_submit := True\<rparr>"

text \<open>The table \<^verbatim>\<open>__batsim_event_handlers\<close>.\<close>

fun dispatch_event :: "handler \<Rightarrow> event \<Rightarrow> handler outcome" where
  "dispatch_event s (SimulationBegins t p) = Returns (on_batsim_simulation_begins s p)"
| "dispatch_event s (SimulationEnds t) = Returns (on_batsim_simulation_ends s)"
| "dispatch_event s (JobCompleted t jid st) = on_batsim_job_completed s jid st"
| "dispatch_event s (JobSubmitted t j) = Returns (on_batsim_job_submitted s j)"
| "dispatch_event s (ResourceStateChanged t hs st) = on_batsim_host_state_changed s hs st"
| "dispatch_event s (RequestedCall t) = Returns (on_batsim_requested_call s)"
| "dispatch_event s (NoMoreStaticJobToSubmit t) = Returns (on_batsim_no_more_jobs_to_submit s)"
| "dispatch_event s (OtherEvent t) = Returns s"

section \<open>The exchange with the engine\<close>

fun handle_events :: "handler \<Rightarrow> event list \<Rightarrow> handler outcome" where
  "handle_events s [] = Returns s"
| "handle_events s (ev # evs) =
     (case dispatch_event (s\<lparr>raw_time := event_timestamp ev\<rparr>) ev of
        Returns s' \<Rightarrow> handle_events s' evs
      | Raises e s' \<Rightarrow> Raises e s'
      | Blocks s' \<Rightarrow> Blocks s')"

text \<open>
  \<^verbatim>\<open>self.__network.recv()\<close> has no timeout (section 5): with no engine message to
  come, the call does not return.
\<close>

definition handle_batsim_events :: "handler \<Rightarrow> handler outcome" where
  "handle_batsim_events s =
     (case network_inbox s of
        [] \<Rightarrow> Blocks s
      | msg # rest \<Rightarrow>
          (case handle_events (s\<lparr>network_inbox := rest\<rparr>) (events msg) of
             Returns s' \<Rightarrow> Returns (s'\<lparr>raw_time := now msg\<rparr>)
           | Raises e s' \<Rightarrow> Raises e s'
           | Blocks s' \<Rightarrow> Blocks s'))"

definition send_requests :: "handler \<Rightarrow> handler" where
  "send_requests s =
     s\<lparr>network_outbox := network_outbox s @ [(current_time s, batsim_requests s)],
       batsim_requests := []\<rparr>"

text \<open>
  A Python number is true when it is not zero; \<^verbatim>\<open>None\<close> is false.
\<close>

definition truthy :: "rat option \<Rightarrow> bool" where
  "truthy x = (case x of None \<Rightarrow> False | Some t \<Rightarrow> t \<noteq> 0)"

definition time_limit_reached :: "handler \<Rightarrow> bool" where
  "time_limit_reached s =
     (case simulation_time s of
        None \<Rightarrow> False
      | Some cap \<Rightarrow> cap \<noteq> 0 \<and> cap \<le> current_time s)"

definition goto_next_batsim_event :: "handler \<Rightarrow> handler outcome" where
  "goto_next_batsim_event s =
     (case handle_batsim_events (send_requests s) of
        Returns s' \<Rightarrow> Returns (if time_limit_reached s' then close s' else s')
      | Raises e s' \<Rightarrow> Raises e s'
      | Blocks s' \<Rightarrow> Blocks s')"

section \<open>The control loop\<close>

text \<open>
  The loop of proceed_time receives one engine message in each iteration. It ends
  because the messages still to come get fewer; the facts below say that no operation
  of the handler puts a message back.
\<close>

lemma inbox_set_batsim_host_pstate [simp]:
  "network_inbox (set_batsim_host_pstate s h p) = network_inbox s"
  by (simp add: set_batsim_host_pstate_def split: option.splits)

lemma inbox_platform_put [simp]: "network_inbox (platform_put i h s) = network_inbox s"
  by (simp add: platform_put_def)

lemma inbox_switch_on_hosts:
  "switch_on_hosts s hs = Returns s' \<Longrightarrow> network_inbox s' = network_inbox s"
  by (induction s hs rule: switch_on_hosts.induct) (auto split: sum.splits)

lemma inbox_switch_on:
  "switch_on s hs = Returns s' \<Longrightarrow> network_inbox s' = network_inbox s"
  by (auto simp: switch_on_def inbox_switch_on_hosts split: if_splits)

lemma inbox_check_hosts:
  "check_hosts s hs b = Returns (b', s') \<Longrightarrow> network_inbox s' = network_inbox s"
  by (induction s hs b rule: check_hosts.induct)
     (auto simp: Let_def split: sum.splits if_splits outcome.splits dest: inbox_switch_on)

lemma inbox_start_job:
  "start_job s i = Returns s' \<Longrightarrow> network_inbox s' = network_inbox s"
  by (auto simp: start_job_def Let_def split: option.splits if_splits outcome.splits
           dest!: inbox_check_hosts)

lemma inbox_start_jobs:
  "start_jobs s js = Returns s' \<Longrightarrow> network_inbox s' = network_inbox s"
  by (induction s js rule: start_jobs.induct)
     (auto split: outcome.splits dest: inbox_start_job)

lemma inbox_start_runnable_jobs:
  "start_runnable_jobs s = Returns s' \<Longrightarrow> network_inbox s' = network_inbox s"
  by (auto simp: start_runnable_jobs_def split: if_splits dest: inbox_start_jobs)

lemma inbox_close [simp]: "network_inbox (close s) = network_inbox s"
  by (simp add: close_def)

lemma inbox_host_state_changed_hosts:
  "host_state_changed_hosts s hs st = Returns s' \<Longrightarrow> network_inbox s' = network_inbox s"
  by (induction s hs st rule: host_state_changed_hosts.induct)
     (auto split: sum.splits option.splits if_splits)

lemma inbox_foldl_invoke [simp]: "network_inbox (foldl invoke s cs) = network_inbox s"
proof (induction cs arbitrary: s)
  case Nil
  show ?case by simp
next
  case (Cons c cs)
  show ?case by (cases c) (simp_all add: Cons.IH)
qed

lemma inbox_dispatch_event:
  "dispatch_event s ev = Returns s' \<Longrightarrow> network_inbox s' = network_inbox s"
  by (cases ev)
     (auto simp: on_batsim_simulation_begins_def on_batsim_simulation_ends_def
                 on_batsim_job_completed_def on_batsim_job_submitted_def
                 on_batsim_host_state_changed_def on_batsim_requested_call_def
                 on_batsim_no_more_jobs_to_submit_def Let_def
           split: option.splits sum.splits outcome.splits if_splits
           dest!: inbox_start_runnable_jobs inbox_host_state_changed_hosts)

lemma inbox_handle_events:
  "handle_events s evs = Returns s' \<Longrightarrow> network_inbox s' = network_inbox s"
  by (induction s evs rule: handle_events.induct)
     (auto split: outcome.splits dest: inbox_dispatch_event)

lemma inbox_goto_next_batsim_event:
  "goto_next_batsim_event s = Returns s' \<Longrightarrow>
   length (network_inbox s') < length (network_inbox s)"
  by (auto simp: goto_next_batsim_event_def handle_batsim_events_def send_requests_def
           split: outcome.splits list.splits if_splits dest: inbox_handle_events)

function proceed_loop :: "handler \<Rightarrow> handler outcome" where
  "proceed_loop s =
     (if is_running s \<and> wait_callback s
      then (case goto_next_batsim_event s of
              Returns s1 \<Rightarrow>
                (case start_runnable_jobs s1 of
                   Returns s2 \<Rightarrow> proceed_loop s2
                 | Raises e s2 \<Rightarrow> Raises e s2
                 | Blocks s2 \<Rightarrow> Blocks s2)
            | Raises e s1 \<Rightarrow> Raises e s1
            | Blocks s1 \<Rightarrow> Blocks s1)
      else Returns s)"
  by pat_completeness auto
termination
proof (relation "measure (\<lambda>s. length (network_inbox s))")
  show "wf (measure (\<lambda>s. length (network_inbox s)))" by simp
next
  fix s s1 s2
  assume "goto_next_batsim_event s = Returns s1" "start_runnable_jobs s1 = Returns s2"
  then show "(s2, s) \<in> measure (\<lambda>s. length (network_inbox s))"
    by (simp add: inbox_goto_next_batsim_event inbox_start_runnable_jobs)
qed

text \<open>
  The first part of proceed_time after its argument checks: it sets
  \<^verbatim>\<open>__wait_callback\<close> and, when a time is given and something can still happen,
  registers \<^verbatim>\<open>unflag\<close> at \<^verbatim>\<open>time + self.current_time\<close>. That sum is a sum
  of Python floats, the exact sum rounded to a float: it can be equal to the current time
  for a small positive time, and it can have more than one decimal place. The rounding
  is not computed here: \<open>fadd\<close> is the function that gives the float sum, a parameter
  of which nothing is assumed.
\<close>

definition proceed_setup ::
  "(rat \<Rightarrow> rat \<Rightarrow> rat) \<Rightarrow> handler \<Rightarrow> rat option \<Rightarrow> handler outcome" where
  "proceed_setup fadd s time =
     (case time of
        None \<Rightarrow> Returns (s\<lparr>wait_callback := False\<rparr>)
      | Some t \<Rightarrow>
          if t = 0 then Returns (s\<lparr>wait_callback := False\<rparr>)
          else if \<not> truthy (simulation_time s) \<and> is_submitter_finished s \<and> jobs s = []
            then Returns (s\<lparr>wait_callback := False\<rparr>)
          else set_callback (s\<lparr>wait_callback := True\<rparr>)
                 (fadd t (current_time (s\<lparr>wait_callback := True\<rparr>))) (Callable Unflag))"

definition proceed_time ::
  "(rat \<Rightarrow> rat \<Rightarrow> rat) \<Rightarrow> handler \<Rightarrow> rat option \<Rightarrow> handler outcome" where
  "proceed_time fadd s time =
     (if \<not> is_running s then Raises RuntimeError s
      else if truthy time \<and> (case time of None \<Rightarrow> False | Some t \<Rightarrow> t \<le> 0)
        then Raises ValueError s
      else (case proceed_setup fadd s time of
              Returns s0 \<Rightarrow>
                (case goto_next_batsim_event s0 of
                   Returns s1 \<Rightarrow>
                     (case start_runnable_jobs s1 of
                        Returns s2 \<Rightarrow> proceed_loop s2
                      | Raises e s2 \<Rightarrow> Raises e s2
                      | Blocks s2 \<Rightarrow> Blocks s2)
                 | Raises e s1 \<Rightarrow> Raises e s1
                 | Blocks s1 \<Rightarrow> Blocks s1)
            | Raises e s0 \<Rightarrow> Raises e s0
            | Blocks s0 \<Rightarrow> Blocks s0))"

text \<open>
  start: the arguments platform, workload and verbosity only build the command line of
  the engine, whose behaviour is the messages to come; they are left out. Launching the
  process makes \<^verbatim>\<open>__simulator\<close> not None. The notification
  \<^verbatim>\<open>dispatch(SimulatorEvent.SIMULATION_BEGINS, self)\<close> goes to subscribers outside
  the handler.
\<close>

definition start :: "handler \<Rightarrow> rat option \<Rightarrow> handler outcome" where
  "start s sim_time =
     (if is_running s then Raises RuntimeError s
      else (case handle_batsim_events
                   (s\<lparr>jobs := [], raw_time := 0, simulation_time := sim_time,
                      no_more_jobs_to_submit := False, simulator := True\<rparr>) of
              Returns s' \<Rightarrow>
                if platform s' = None then Raises RuntimeError s'
                else (case simulation_time s' of
                        None \<Rightarrow> Returns s'
                      | Some t \<Rightarrow>
                          Returns (if t \<noteq> 0 then set_batsim_call_me_later s' t else s'))
            | Raises e s' \<Rightarrow> Raises e s'
            | Blocks s' \<Rightarrow> Blocks s'))"

text \<open>
  A sequence of calls of \<^verbatim>\<open>__set_batsim_host_pstate\<close>, one for each pair of a
  host id and a destination power state, with no exchange in between: what switch_on,
  switch_off and switch_power_state do to the pending requests at one instant.
\<close>

definition set_host_pstates :: "handler \<Rightarrow> (nat \<times> nat) list \<Rightarrow> handler" where
  "set_host_pstates s acts = foldl (\<lambda>s' (h, p). set_batsim_host_pstate s' h p) s acts"

section \<open>Notions used in the statements\<close>

text \<open>
  The power actions of the caller, a sequence of them run one after the other with no
  exchange in between, and the pairs of a host id and a destination power state they
  target: switch_on targets the default power state of each host, switch_off its sleep
  power state, switch_power_state the given one.
\<close>

datatype power_action = SwitchOn "nat list" | SwitchOff "nat list" | SwitchPowerState nat nat

fun do_power_action :: "handler \<Rightarrow> power_action \<Rightarrow> handler outcome" where
  "do_power_action s (SwitchOn hs) = switch_on s hs"
| "do_power_action s (SwitchOff hs) = switch_off s hs"
| "do_power_action s (SwitchPowerState h p) = switch_power_state s h p"

fun do_power_actions :: "handler \<Rightarrow> power_action list \<Rightarrow> handler outcome" where
  "do_power_actions s [] = Returns s"
| "do_power_actions s (a # as) =
     (case do_power_action s a of
        Returns s' \<Rightarrow> do_power_actions s' as
      | Raises e s' \<Rightarrow> Raises e s'
      | Blocks s' \<Rightarrow> Blocks s')"

definition default_of :: "handler \<Rightarrow> nat \<Rightarrow> nat option" where
  "default_of s h = (case platform_get s h of Inl e \<Rightarrow> None | Inr host \<Rightarrow> default_pstate host)"

definition sleep_of :: "handler \<Rightarrow> nat \<Rightarrow> nat option" where
  "sleep_of s h = (case platform_get s h of Inl e \<Rightarrow> None | Inr host \<Rightarrow> sleep_pstate host)"

fun action_targets :: "handler \<Rightarrow> power_action \<Rightarrow> (nat \<times> nat) list" where
  "action_targets s (SwitchOn hs) = List.map_filter (\<lambda>h. map_option (Pair h) (default_of s h)) hs"
| "action_targets s (SwitchOff hs) = List.map_filter (\<lambda>h. map_option (Pair h) (sleep_of s h)) hs"
| "action_targets s (SwitchPowerState h p) = [(h, p)]"

definition same_catalog :: "handler \<Rightarrow> handler \<Rightarrow> bool" where
  "same_catalog s s' =
     (raw_time s' = raw_time s \<and> default_of s' = default_of s \<and> sleep_of s' = sleep_of s)"

definition all_targets :: "handler \<Rightarrow> power_action list \<Rightarrow> (nat \<times> nat) list" where
  "all_targets s acts = concat (map (action_targets s) acts)"

text \<open>The state a call ends in, whatever its outcome.\<close>

fun final :: "handler outcome \<Rightarrow> handler" where
  "final (Returns s) = s"
| "final (Raises e s) = s"
| "final (Blocks s) = s"

definition final2 :: "(bool \<times> handler) outcome \<Rightarrow> handler" where
  "final2 r = (case r of Returns (b, s) \<Rightarrow> s | Raises e s \<Rightarrow> s | Blocks s \<Rightarrow> s)"

text \<open>Whether the platform holds the host and the host is idle.\<close>

definition host_is_idle :: "handler \<Rightarrow> nat \<Rightarrow> bool" where
  "host_is_idle s h = (case platform_get s h of Inl e \<Rightarrow> False | Inr host \<Rightarrow> is_idle host)"

text \<open>Concrete hosts, jobs and running handlers, for the examples below.\<close>

definition host_in :: "host_state \<Rightarrow> nat \<Rightarrow> host" where
  "host_in st p =
     \<lparr>hstate = st, pstate = Some p, pstates = [0, 1], default_pstate = Some 0,
      sleep_pstate = Some 2, host_jobs = []\<rparr>"

definition job_in :: "string \<Rightarrow> job_state \<Rightarrow> nat list option \<Rightarrow> job" where
  "job_in jid st alloc =
     \<lparr>job_id = jid, jstate = st, allocation = alloc, subtime = Some 0,
      start_time = None, stop_time = None\<rparr>"

definition running_handler :: "(nat \<rightharpoonup> host) \<Rightarrow> job list \<Rightarrow> in_message list \<Rightarrow> handler" where
  "running_handler p js msgs =
     (handler_init msgs)\<lparr>simulator := True, platform := Some p, jobs := js\<rparr>"

text \<open>
  Whether the pending requests hold a set-resource-state request with the timestamp
  \<open>t\<close> and the power state \<open>p\<close> that names the host \<open>h\<close>.
\<close>

fun targets :: "rat \<Rightarrow> nat \<Rightarrow> nat \<Rightarrow> request \<Rightarrow> bool" where
  "targets t h p (SetResourceState t' hs p') = (t' = t \<and> p' = p \<and> h \<in> hs)"
| "targets t h p r = False"

definition requested :: "rat \<Rightarrow> nat \<Rightarrow> nat \<Rightarrow> request list \<Rightarrow> bool" where
  "requested t h p rs = list_ex (targets t h p) rs"

text \<open>
  Relations between the state before and after a step, used in the proofs about
  \<^verbatim>\<open>__start_runnable_jobs\<close>: the step keeps the time and the platform and drops
  no host from a pending set-resource-state request; and every sleeping host of the
  allocation of the job at position \<open>i\<close> is named by a pending request for its
  default power state.
\<close>

definition keeps :: "handler \<Rightarrow> handler \<Rightarrow> bool" where
  "keeps s s' =
     (raw_time s' = raw_time s \<and> platform s' = platform s \<and>
      (\<forall>t h p. requested t h p (batsim_requests s) \<longrightarrow> requested t h p (batsim_requests s')))"

definition sleeping_hosts_requested :: "handler \<Rightarrow> handler \<Rightarrow> nat \<Rightarrow> bool" where
  "sleeping_hosts_requested s s' i =
     (\<forall>alloc h host. allocation (jobs s ! i) = Some alloc \<and> h \<in> set alloc \<and>
        platform_get s h = Inr host \<and> is_sleeping host \<longrightarrow>
        (\<exists>p. get_default_pstate host = Inr p \<and>
             requested (current_time s) h p (batsim_requests s')))"

text \<open>
  Whether the platform holds the host and its mirrored power-state id is \<open>st\<close>.
\<close>

definition mirrors :: "handler \<Rightarrow> nat \<Rightarrow> nat \<Rightarrow> bool" where
  "mirrors s h st = (case platform_get s h of Inl e \<Rightarrow> False | Inr host \<Rightarrow> pstate host = Some st)"

text \<open>
  Every pending request of \<open>s'\<close> is a pending request of \<open>s\<close> or carries the
  current time of \<open>s\<close> as its timestamp.
\<close>

definition stamped :: "handler \<Rightarrow> handler \<Rightarrow> bool" where
  "stamped s s' =
     list_all (\<lambda>r. r \<in> set (batsim_requests s) \<or> timestamp r = current_time s)
       (batsim_requests s')"

text \<open>
  A running handler with nothing that will produce an event: no time limit, the
  submitter finished, one job waiting in the queue that has no allocation, no pending
  request, no callback, and no engine message to come.
\<close>

definition stalled_handler :: handler where
  "stalled_handler =
     (running_handler Map.empty [job_in ''j1'' Submitted None] [])
       \<lparr>no_more_jobs_to_submit := True\<rparr>"

text \<open>
  A running handler at time 0 whose engine will answer with one timer event at 10.25, the
  handler after the registration of a first callback for 10.2, and the handler after the
  registration of a second callback for 10.25.
\<close>

definition timer_start :: handler where
  "timer_start =
     running_handler Map.empty [] [\<lparr>now = 41 / 4, events = [RequestedCall (41 / 4)]\<rparr>]"

definition timer_first :: handler where
  "timer_first = final (set_callback timer_start (51 / 5) (Callable (UserCallback 2)))"

definition timer_handler :: handler where
  "timer_handler = final (set_callback timer_first (41 / 4) (Callable (UserCallback 1)))"

text \<open>
  The engine's first message of a run that loads a platform of one host, and a first
  message that carries no simulation-begins event.
\<close>

definition first_run_begins :: in_message where
  "first_run_begins = \<lparr>now = 0, events = [SimulationBegins 0 [0 \<mapsto> host_in Idle 0]]\<rparr>"

definition second_run_begins :: in_message where
  "second_run_begins = \<lparr>now = 0, events = []\<rparr>"

section \<open>Coalescing of power-state requests\<close>

lemma raw_time_set_batsim_host_pstate [simp]:
  "raw_time (set_batsim_host_pstate s h p) = raw_time s"
  by (simp add: set_batsim_host_pstate_def split: option.splits)

lemma current_time_set_batsim_host_pstate [simp]:
  "current_time (set_batsim_host_pstate s h p) = current_time s"
  by (simp add: current_time_def)

lemma add_to_old_request_None:
  "(add_to_old_request ct p h rs = None) = (filter (is_old_request ct p) rs = [])"
  by (induction rs) auto

lemma is_old_request_add_resource [simp]:
  "is_old_request ct q (add_resource h r) = is_old_request ct q r"
  by (cases r) auto

lemma add_to_old_request_other:
  "add_to_old_request ct p h rs = Some rs' \<Longrightarrow> q \<noteq> p \<Longrightarrow>
   filter (is_old_request ct q) rs' = filter (is_old_request ct q) rs"
proof (induction rs arbitrary: rs')
  case Nil
  then show ?case by simp
next
  case (Cons r rs)
  show ?case
  proof (cases "is_old_request ct p r")
    case True
    then have "\<not> is_old_request ct q r" using Cons.prems(2) by (cases r) auto
    with True Cons.prems show ?thesis by auto
  next
    case False
    with Cons.prems obtain rs2 where "add_to_old_request ct p h rs = Some rs2" "rs' = r # rs2"
      by auto
    with Cons.IH [OF this(1) Cons.prems(2)] show ?thesis by simp
  qed
qed

lemma add_to_old_request_same:
  "add_to_old_request ct p h rs = Some rs' \<Longrightarrow>
   filter (is_old_request ct p) rs = [SetResourceState ct hs p] \<Longrightarrow>
   filter (is_old_request ct p) rs' = [SetResourceState ct (insert h hs) p]"
proof (induction rs arbitrary: rs')
  case Nil
  then show ?case by simp
next
  case (Cons r rs)
  show ?case
  proof (cases "is_old_request ct p r")
    case True
    with Cons.prems show ?thesis by auto
  next
    case False
    with Cons.prems obtain rs2 where "add_to_old_request ct p h rs = Some rs2" "rs' = r # rs2"
      by auto
    with Cons.IH [OF this(1)] Cons.prems(2) False show ?thesis by simp
  qed
qed

lemma pending_set_batsim_host_pstate_other:
  "q \<noteq> p \<Longrightarrow>
   filter (is_old_request (current_time s) q) (batsim_requests (set_batsim_host_pstate s h p)) =
   filter (is_old_request (current_time s) q) (batsim_requests s)"
  by (auto simp: set_batsim_host_pstate_def add_to_old_request_other split: option.splits)

lemma pending_set_batsim_host_pstate_first:
  "filter (is_old_request (current_time s) p) (batsim_requests s) = [] \<Longrightarrow>
   filter (is_old_request (current_time s) p) (batsim_requests (set_batsim_host_pstate s h p)) =
   [SetResourceState (current_time s) {h} p]"
proof -
  assume e: "filter (is_old_request (current_time s) p) (batsim_requests s) = []"
  then have "add_to_old_request (current_time s) p h (batsim_requests s) = None"
    by (simp add: add_to_old_request_None)
  with e show ?thesis by (simp add: set_batsim_host_pstate_def)
qed

lemma pending_set_batsim_host_pstate_merge:
  "filter (is_old_request (current_time s) p) (batsim_requests s) =
     [SetResourceState (current_time s) hs p] \<Longrightarrow>
   filter (is_old_request (current_time s) p) (batsim_requests (set_batsim_host_pstate s h p)) =
   [SetResourceState (current_time s) (insert h hs) p]"
  by (auto simp: set_batsim_host_pstate_def add_to_old_request_None add_to_old_request_same
           split: option.splits)

lemma current_time_set_host_pstates [simp]:
  "current_time (set_host_pstates s acts) = current_time s"
  by (induction acts rule: rev_induct) (auto simp: set_host_pstates_def)

lemma pending_set_host_pstates:
  assumes "filter (is_old_request (current_time s) p) (batsim_requests s) = []"
  shows "filter (is_old_request (current_time s) p) (batsim_requests (set_host_pstates s acts)) =
         (if \<exists>h. (h, p) \<in> set acts
          then [SetResourceState (current_time s) {h. (h, p) \<in> set acts} p] else [])"
proof (induction acts rule: rev_induct)
  case Nil
  show ?case using assms by (simp add: set_host_pstates_def)
next
  case (snoc a acts)
  obtain h q where a: "a = (h, q)" by (cases a)
  let ?s = "set_host_pstates s acts"
  have step: "set_host_pstates s (acts @ [a]) = set_batsim_host_pstate ?s h q"
    by (simp add: set_host_pstates_def a)
  have ct: "current_time ?s = current_time s" by simp
  show ?case
  proof (cases "q = p")
    case False
    then have "filter (is_old_request (current_time s) p)
                 (batsim_requests (set_host_pstates s (acts @ [a]))) =
               filter (is_old_request (current_time s) p) (batsim_requests ?s)"
      using pending_set_batsim_host_pstate_other [of p q ?s h] by (simp add: step)
    with snoc.IH False a show ?thesis by auto
  next
    case True
    show ?thesis
    proof (cases "\<exists>h'. (h', p) \<in> set acts")
      case False
      with snoc.IH have "filter (is_old_request (current_time ?s) p) (batsim_requests ?s) = []"
        by simp
      from pending_set_batsim_host_pstate_first [OF this, of h]
      have "filter (is_old_request (current_time s) p)
              (batsim_requests (set_host_pstates s (acts @ [a]))) =
            [SetResourceState (current_time s) {h} p]"
        by (simp add: step True)
      moreover have "{h'. (h', p) \<in> set (acts @ [a])} = {h}" using False a True by auto
      ultimately show ?thesis using a True by auto
    next
      case ex: True
      with snoc.IH have "filter (is_old_request (current_time ?s) p) (batsim_requests ?s) =
          [SetResourceState (current_time ?s) {h'. (h', p) \<in> set acts} p]"
        by simp
      from pending_set_batsim_host_pstate_merge [OF this, of h]
      have "filter (is_old_request (current_time s) p)
              (batsim_requests (set_host_pstates s (acts @ [a]))) =
            [SetResourceState (current_time s) (insert h {h'. (h', p) \<in> set acts}) p]"
        by (simp add: step True)
      moreover have "{h'. (h', p) \<in> set (acts @ [a])} = insert h {h'. (h', p) \<in> set acts}"
        using a True by auto
      ultimately show ?thesis using a True by auto
    qed
  qed
qed

lemma round1_0: "round1 0 = 0"
  by code_simp

section \<open>Starting a job needs all its hosts idle\<close>

lemma host_switch_on_not_idle: "host_switch_on h = Inr h' \<Longrightarrow> \<not> is_idle h'"
  by (auto simp: host_switch_on_def is_idle_def is_sleeping_def split: if_splits)

lemma platform_get_set_batsim_host_pstate [simp]:
  "platform_get (set_batsim_host_pstate s h p) k = platform_get s k"
  by (simp add: platform_get_def set_batsim_host_pstate_def split: option.splits)

lemma jobs_set_batsim_host_pstate [simp]:
  "jobs (set_batsim_host_pstate s h p) = jobs s"
  by (simp add: set_batsim_host_pstate_def split: option.splits)

lemma jobs_platform_put [simp]: "jobs (platform_put k h s) = jobs s"
  by (simp add: platform_put_def)

lemma platform_get_platform_put:
  "platform_get (platform_put k h s) k' =
     (if platform s = None then Inl SystemError
      else if k' = k then Inr h else platform_get s k')"
  by (auto simp: platform_get_def platform_put_def split: option.splits)

lemma host_is_idle_put_back:
  "\<not> is_idle h' \<Longrightarrow> host_is_idle (platform_put k h' s) k' \<Longrightarrow> host_is_idle s k'"
  by (auto simp: host_is_idle_def platform_get_platform_put split: if_splits sum.splits)

lemma host_is_idle_set_batsim_host_pstate [simp]:
  "host_is_idle (set_batsim_host_pstate s h p) k = host_is_idle s k"
  by (simp add: host_is_idle_def)

lemma switch_on_hosts_back:
  "final (switch_on_hosts s hs) = s' \<Longrightarrow>
   jobs s' = jobs s \<and> (\<forall>k. host_is_idle s' k \<longrightarrow> host_is_idle s k)"
proof (induction s hs rule: switch_on_hosts.induct)
  case (1 s)
  then show ?case by simp
next
  case (2 s h_id rest)
  show ?case
  proof (cases "platform_get s h_id")
    case (Inl e)
    with 2 show ?thesis by simp
  next
    case (Inr host)
    show ?thesis
    proof (cases "host_switch_on host")
      case (Inl e)
      with Inr 2 show ?thesis by simp
    next
      case on: (Inr host')
      then have ni: "\<not> is_idle host'" by (rule host_switch_on_not_idle)
      show ?thesis
      proof (cases "get_default_pstate host'")
        case (Inl e)
        with Inr on 2 ni show ?thesis by (auto dest: host_is_idle_put_back)
      next
        case p: (Inr p)
        from "2.prems" Inr on p
        have "final (switch_on_hosts
                (set_batsim_host_pstate (platform_put h_id host' s) h_id p) rest) = s'"
          by simp
        from "2.IH" [OF Inr on p this] ni show ?thesis
          by (auto dest: host_is_idle_put_back)
      qed
    qed
  qed
qed

lemma switch_on_back:
  "final (switch_on s hs) = s' \<Longrightarrow>
   jobs s' = jobs s \<and> (\<forall>k. host_is_idle s' k \<longrightarrow> host_is_idle s k)"
  using switch_on_hosts_back [of s hs s']
  by (auto simp: switch_on_def split: if_splits)

lemma check_hosts_back:
  "final2 (check_hosts s hs b) = s' \<Longrightarrow>
   jobs s' = jobs s \<and> (\<forall>k. host_is_idle s' k \<longrightarrow> host_is_idle s k)"
proof (induction s hs b arbitrary: rule: check_hosts.induct)
  case (1 s is_ready)
  then show ?case by (simp add: final2_def)
next
  case (2 s h_id rest is_ready)
  show ?case
  proof (cases "platform_get s h_id")
    case (Inl e)
    with 2 show ?thesis by (simp add: final2_def)
  next
    case (Inr host)
    define r where "r = (if \<not> is_idle host then False else is_ready)"
    show ?thesis
    proof (cases "is_sleeping host")
      case False
      with "2.prems" Inr have "final2 (check_hosts s rest r) = s'"
        by (simp add: r_def Let_def)
      from "2.IH"(2) [OF Inr r_def False this] show ?thesis .
    next
      case True
      show ?thesis
      proof (cases "switch_on s [h_id]")
        case (Returns s1)
        with "2.prems" Inr True have "final2 (check_hosts s1 rest r) = s'"
          by (simp add: r_def Let_def)
        from "2.IH"(1) [OF Inr r_def True Returns this]
          switch_on_back [of s "[h_id]" s1] Returns
        show ?thesis by auto
      next
        case (Raises e s1)
        with "2.prems" Inr True have "s1 = s'" by (simp add: final2_def Let_def)
        with switch_on_back [of s "[h_id]" s1] Raises show ?thesis by auto
      next
        case (Blocks s1)
        with "2.prems" Inr True have "s1 = s'" by (simp add: final2_def Let_def)
        with switch_on_back [of s "[h_id]" s1] Blocks show ?thesis by auto
      qed
    qed
  qed
qed

lemma check_hosts_ready:
  "check_hosts s hs b = Returns (True, s') \<Longrightarrow> b \<and> (\<forall>h \<in> set hs. host_is_idle s h)"
proof (induction s hs b rule: check_hosts.induct)
  case (1 s is_ready)
  then show ?case by simp
next
  case (2 s h_id rest is_ready)
  from "2.prems" obtain host where Inr: "platform_get s h_id = Inr host"
    by (cases "platform_get s h_id") auto
  define r where "r = (if \<not> is_idle host then False else is_ready)"
  show ?case
  proof (cases "is_sleeping host")
    case False
    with "2.prems" Inr have "check_hosts s rest r = Returns (True, s')"
      by (simp add: r_def Let_def)
    from "2.IH"(2) [OF Inr r_def False this] Inr show ?thesis
      by (auto simp: r_def host_is_idle_def split: if_splits)
  next
    case True
    with "2.prems" Inr obtain s1 where s1: "switch_on s [h_id] = Returns s1"
      and rec: "check_hosts s1 rest r = Returns (True, s')"
      by (auto simp: r_def Let_def split: outcome.splits)
    from "2.IH"(1) [OF Inr r_def True s1 rec] have "r" by simp
    with True show ?thesis by (auto simp: r_def is_idle_def is_sleeping_def split: if_splits)
  qed
qed

lemma host_is_idle_jobs_update [simp]:
  "host_is_idle (s\<lparr>jobs := js, batsim_requests := rs\<rparr>) k = host_is_idle s k"
  by (simp add: host_is_idle_def platform_get_def)

lemma start_job_effect:
  assumes "final (start_job s i) = s'"
  shows "length (jobs s') = length (jobs s) \<and>
         (\<forall>k. k \<noteq> i \<longrightarrow> jobs s' ! k = jobs s ! k) \<and>
         (\<forall>k. host_is_idle s' k \<longrightarrow> host_is_idle s k) \<and>
         (jobs s' ! i = jobs s ! i \<or>
          (\<forall>alloc. allocation (jobs s ! i) = Some alloc \<longrightarrow>
                   (\<forall>h \<in> set alloc. host_is_idle s h)))"
proof (cases "allocation (jobs s ! i)")
  case None
  with assms show ?thesis by (simp add: start_job_def)
next
  case (Some alloc)
  show ?thesis
  proof (cases "alloc = []")
    case True
    with Some assms show ?thesis by (simp add: start_job_def)
  next
    case False
    show ?thesis
    proof (cases "check_hosts s alloc True")
      case (Returns bs)
      obtain b s1 where bs: "bs = (b, s1)" by (cases bs)
      from Returns bs have f: "final2 (check_hosts s alloc True) = s1"
        by (simp add: final2_def)
      note bk = check_hosts_back [OF f]
      show ?thesis
      proof (cases b)
        case True
        from Returns bs True have "\<forall>h \<in> set alloc. host_is_idle s h"
          using check_hosts_ready [of s alloc True s1] by simp
        moreover from assms Some False Returns bs True
        have "s' = s1\<lparr>jobs := (jobs s1)[i := job_start (current_time s1) (jobs s1 ! i)],
                       batsim_requests := batsim_requests s1 @
                         [ExecuteJob (current_time s1) (job_id (jobs s ! i)) alloc]\<rparr>"
          by (simp add: start_job_def)
        ultimately show ?thesis using bk Some by auto
      next
        case b: False
        with assms Some False Returns bs have "s' = s1" by (simp add: start_job_def)
        with bk show ?thesis by simp
      qed
    next
      case (Raises e s1)
      then have f: "final2 (check_hosts s alloc True) = s1" by (simp add: final2_def)
      from assms Some False Raises have "s' = s1" by (simp add: start_job_def)
      with check_hosts_back [OF f] show ?thesis by simp
    next
      case (Blocks s1)
      then have f: "final2 (check_hosts s alloc True) = s1" by (simp add: final2_def)
      from assms Some False Blocks have "s' = s1" by (simp add: start_job_def)
      with check_hosts_back [OF f] show ?thesis by simp
    qed
  qed
qed

lemma start_jobs_effect:
  "final (start_jobs s idxs) = s' \<Longrightarrow>
   length (jobs s') = length (jobs s) \<and>
   (\<forall>k. host_is_idle s' k \<longrightarrow> host_is_idle s k) \<and>
   (\<forall>i. jobs s' ! i = jobs s ! i \<or>
        (\<forall>alloc. allocation (jobs s ! i) = Some alloc \<longrightarrow>
                 (\<forall>h \<in> set alloc. host_is_idle s h)))"
proof (induction s idxs rule: start_jobs.induct)
  case (1 s)
  then show ?case by simp
next
  case (2 s i0 rest)
  show ?case
  proof (cases "start_job s i0")
    case (Returns s1)
    then have "final (start_job s i0) = s1" by simp
    note one = start_job_effect [OF this]
    from "2.prems" Returns have "final (start_jobs s1 rest) = s'" by simp
    note ih = "2.IH" [OF Returns this]
    show ?thesis
    proof (intro conjI allI)
      show "length (jobs s') = length (jobs s)" using one ih by simp
      show "\<And>k. host_is_idle s' k \<longrightarrow> host_is_idle s k" using one ih by blast
      fix i
      show "jobs s' ! i = jobs s ! i \<or>
            (\<forall>alloc. allocation (jobs s ! i) = Some alloc \<longrightarrow>
                     (\<forall>h \<in> set alloc. host_is_idle s h))"
      proof (cases "jobs s1 ! i = jobs s ! i")
        case True
        with ih one show ?thesis by metis
      next
        case False
        with one have "i = i0" by blast
        with one False show ?thesis by blast
      qed
    qed
  next
    case (Raises e s1)
    with "2.prems" have "final (start_job s i0) = s'" by simp
    from start_job_effect [OF this] show ?thesis by metis
  next
    case (Blocks s1)
    with "2.prems" have "final (start_job s i0) = s'" by simp
    from start_job_effect [OF this] show ?thesis by metis
  qed
qed

text \<open>
  C1: whenever the handler attempts to start the runnable jobs, and however the attempt
  ends, a job that was runnable before it and is running after it has every host of its
  allocation idle in the state the attempt started from; so a job with a host that is
  sleeping, switching or computing is not started. Every place that attempts to start
  jobs (allocate, the host-state-changed handler, the job-completed handler, each
  iteration of proceed_time) does it through this one function.
\<close>

theorem start_requires_all_hosts_idle:
  assumes "final (start_runnable_jobs s) = s'"
    and "i < length (jobs s)"
    and "is_runnable (jobs s ! i)"
    and "jstate (jobs s' ! i) = Running"
    and "allocation (jobs s ! i) = Some alloc"
    and "h \<in> set alloc"
  shows "host_is_idle s h"
proof -
  from assms(3,4) have ne: "jobs s' ! i \<noteq> jobs s ! i"
    by (auto simp: is_runnable_def)
  then have "final (start_jobs s (runnable_jobs s)) = s'"
    using assms(1) by (auto simp: start_runnable_jobs_def split: if_splits)
  from start_jobs_effect [OF this] ne assms(5,6) show ?thesis by blast
qed

lemmas eval_defs = running_handler_def handler_init_def host_in_def job_in_def
  start_runnable_jobs_def runnable_jobs_def start_job_def is_running_def is_runnable_def
  platform_get_def platform_put_def is_idle_def is_sleeping_def current_time_def round1_0
  job_start_def host_is_idle_def switch_on_def host_switch_on_def get_default_pstate_def
  set_batsim_host_pstate_def Let_def

theorem start_requires_all_hosts_idle_witness:
  "jstate (jobs (final (start_runnable_jobs
      (running_handler [0 \<mapsto> host_in Idle 0, 1 \<mapsto> host_in Idle 0]
         [job_in ''j1'' Allocated (Some [0, 1])] []))) ! 0) = Running \<and>
   host_is_idle (running_handler [0 \<mapsto> host_in Idle 0, 1 \<mapsto> host_in Idle 0]
         [job_in ''j1'' Allocated (Some [0, 1])] []) 1"
proof -
  let ?s = "running_handler [0 \<mapsto> host_in Idle 0, 1 \<mapsto> host_in Idle 0]
              [job_in ''j1'' Allocated (Some [0, 1])] []"
  have a: "jstate (jobs (final (start_runnable_jobs ?s)) ! 0) = Running"
    by (simp add: eval_defs)
  have b: "0 < length (jobs ?s)" "is_runnable (jobs ?s ! 0)"
    "allocation (jobs ?s ! 0) = Some [0, 1]" "(1::nat) \<in> set [0, 1]"
    by (simp_all add: eval_defs)
  from start_requires_all_hosts_idle [OF refl b(1,2) a b(3,4)] a show ?thesis by simp
qed

section \<open>Sleeping hosts of runnable jobs are switched on\<close>

lemma targets_iff: "targets t h p r = (\<exists>hs. r = SetResourceState t hs p \<and> h \<in> hs)"
  by (cases r) auto

lemma requested_iff:
  "requested t h p rs = (\<exists>hs. SetResourceState t hs p \<in> set rs \<and> h \<in> hs)"
  by (auto simp: requested_def list_ex_iff targets_iff)

lemma requested_append [simp]:
  "requested t h p (rs @ rs') = (requested t h p rs \<or> requested t h p rs')"
  by (auto simp: requested_iff)

lemma requested_add_to_old_request_mono:
  "add_to_old_request ct q k rs = Some rs' \<Longrightarrow> requested t h p rs \<Longrightarrow> requested t h p rs'"
proof (induction rs arbitrary: rs')
  case Nil
  then show ?case by simp
next
  case (Cons r rs)
  show ?case
  proof (cases "is_old_request ct q r")
    case True
    with Cons.prems have rs': "rs' = add_resource k r # rs" by simp
    from Cons.prems(2) show ?thesis unfolding rs' requested_iff
      by (cases r) auto
  next
    case False
    with Cons.prems obtain rs2 where 2: "add_to_old_request ct q k rs = Some rs2" "rs' = r # rs2"
      by auto
    from Cons.prems(2) Cons.IH [OF 2(1)] show ?thesis unfolding 2(2) requested_iff
      by auto
  qed
qed

lemma requested_add_to_old_request_new:
  "add_to_old_request ct p h rs = Some rs' \<Longrightarrow> requested ct h p rs'"
proof (induction rs arbitrary: rs')
  case Nil
  then show ?case by simp
next
  case (Cons r rs)
  show ?case
  proof (cases "is_old_request ct p r")
    case True
    with Cons.prems have rs': "rs' = add_resource h r # rs" by simp
    from True show ?thesis unfolding rs' requested_iff by (cases r) auto
  next
    case False
    with Cons.prems obtain rs2 where 2: "add_to_old_request ct p h rs = Some rs2" "rs' = r # rs2"
      by auto
    from Cons.IH [OF 2(1)] show ?thesis unfolding 2(2) requested_iff by auto
  qed
qed

lemma requested_set_batsim_host_pstate_mono:
  "requested t h p (batsim_requests s) \<Longrightarrow>
   requested t h p (batsim_requests (set_batsim_host_pstate s k q))"
  by (auto simp: set_batsim_host_pstate_def split: option.splits
           dest: requested_add_to_old_request_mono)

lemma requested_set_batsim_host_pstate_new:
  "requested (current_time s) h p (batsim_requests (set_batsim_host_pstate s h p))"
  by (auto simp: set_batsim_host_pstate_def requested_iff [of _ _ _ "[_]"] 
           split: option.splits dest: requested_add_to_old_request_new)

lemma keeps_refl [simp]: "keeps s s"
  by (simp add: keeps_def)

lemma keeps_trans: "keeps s s1 \<Longrightarrow> keeps s1 s2 \<Longrightarrow> keeps s s2"
  by (simp add: keeps_def)

lemma keeps_current_time: "keeps s s' \<Longrightarrow> current_time s' = current_time s"
  by (simp add: keeps_def current_time_def)

lemma keeps_platform_get: "keeps s s' \<Longrightarrow> platform_get s' k = platform_get s k"
  by (simp add: keeps_def platform_get_def)

lemma keeps_requested:
  "keeps s s' \<Longrightarrow> requested t h p (batsim_requests s) \<Longrightarrow> requested t h p (batsim_requests s')"
  by (simp add: keeps_def)

lemma platform_put_same:
  "platform_get s k = Inr h \<Longrightarrow> platform_put k h s = s"
  by (auto simp: platform_get_def platform_put_def fun_upd_idem split: option.splits)

lemma keeps_set_batsim_host_pstate [simp]: "keeps s (set_batsim_host_pstate s k q)"
  by (auto simp: keeps_def requested_set_batsim_host_pstate_mono)
     (simp_all add: set_batsim_host_pstate_def split: option.splits)

lemma switch_on_hosts_requests:
  "switch_on_hosts s hs = Returns s' \<Longrightarrow>
   keeps s s' \<and> jobs s' = jobs s \<and>
   (\<forall>h \<in> set hs. \<exists>host p. platform_get s h = Inr host \<and> get_default_pstate host = Inr p \<and>
        requested (current_time s) h p (batsim_requests s'))"
proof (induction s hs rule: switch_on_hosts.induct)
  case (1 s)
  then show ?case by simp
next
  case (2 s h_id rest)
  from "2.prems" obtain host where g: "platform_get s h_id = Inr host"
    by (cases "platform_get s h_id") auto
  from "2.prems" g obtain host' where on: "host_switch_on host = Inr host'"
    by (cases "host_switch_on host") auto
  then have same: "host' = host" by (auto simp: host_switch_on_def split: if_splits)
  from "2.prems" g on obtain p where p: "get_default_pstate host' = Inr p"
    by (cases "get_default_pstate host'") auto
  let ?s1 = "set_batsim_host_pstate (platform_put h_id host' s) h_id p"
  have s1: "?s1 = set_batsim_host_pstate s h_id p"
    using g same by (simp add: platform_put_same)
  from "2.prems" g on p have rec: "switch_on_hosts ?s1 rest = Returns s'" by simp
  note ih = "2.IH" [OF g on p rec]
  have k1: "keeps s ?s1" unfolding s1 by simp
  have k: "keeps s s'" using k1 ih by (blast intro: keeps_trans)
  have "requested (current_time s) h_id p (batsim_requests ?s1)"
    unfolding s1 by (rule requested_set_batsim_host_pstate_new)
  with ih have here: "requested (current_time s) h_id p (batsim_requests s')"
    by (blast intro: keeps_requested)
  have "\<forall>h \<in> set rest. \<exists>host p. platform_get s h = Inr host \<and>
          get_default_pstate host = Inr p \<and> requested (current_time s) h p (batsim_requests s')"
    using ih keeps_platform_get [OF k1] keeps_current_time [OF k1] by simp
  with k ih g p same here show ?case by (auto simp: s1)
qed

lemma check_hosts_requests:
  "check_hosts s hs b = Returns (r, s') \<Longrightarrow>
   keeps s s' \<and> jobs s' = jobs s \<and>
   (\<forall>h \<in> set hs. \<forall>host. platform_get s h = Inr host \<and> is_sleeping host \<longrightarrow>
        (\<exists>p. get_default_pstate host = Inr p \<and>
             requested (current_time s) h p (batsim_requests s')))"
proof (induction s hs b rule: check_hosts.induct)
  case (1 s is_ready)
  then show ?case by simp
next
  case (2 s h_id rest is_ready)
  from "2.prems" obtain host where g: "platform_get s h_id = Inr host"
    by (cases "platform_get s h_id") auto
  define r' where "r' = (if \<not> is_idle host then False else is_ready)"
  show ?case
  proof (cases "is_sleeping host")
    case False
    with "2.prems" g have "check_hosts s rest r' = Returns (r, s')"
      by (simp add: r'_def Let_def)
    from "2.IH"(2) [OF g r'_def False this] g False show ?thesis by auto
  next
    case True
    with "2.prems" g obtain s1 where s1: "switch_on s [h_id] = Returns s1"
      and rec: "check_hosts s1 rest r' = Returns (r, s')"
      by (auto simp: r'_def Let_def split: outcome.splits)
    from s1 have "switch_on_hosts s [h_id] = Returns s1"
      by (auto simp: switch_on_def split: if_splits)
    note on = switch_on_hosts_requests [OF this]
    note ih = "2.IH"(1) [OF g r'_def True s1 rec]
    from on have k1: "keeps s s1" by simp
    have k: "keeps s s'" using k1 ih by (blast intro: keeps_trans)
    from on g obtain p where p: "get_default_pstate host = Inr p"
      "requested (current_time s) h_id p (batsim_requests s1)" by auto
    with ih have here: "requested (current_time s) h_id p (batsim_requests s')"
      by (blast intro: keeps_requested)
    have "\<forall>h \<in> set rest. \<forall>host. platform_get s h = Inr host \<and> is_sleeping host \<longrightarrow>
        (\<exists>p. get_default_pstate host = Inr p \<and>
             requested (current_time s) h p (batsim_requests s'))"
      using ih keeps_platform_get [OF k1] keeps_current_time [OF k1] by simp
    with k ih on g p(1) here show ?thesis by auto
  qed
qed

lemma keeps_jobs_requests_update:
  "keeps s (s\<lparr>jobs := js, batsim_requests := batsim_requests s @ rs\<rparr>)"
  by (simp add: keeps_def)

lemma allocation_job_start [simp]: "allocation (job_start t j) = allocation j"
  by (simp add: job_start_def)

lemma start_job_requests:
  assumes "start_job s i = Returns s'"
  shows "keeps s s' \<and> (\<forall>k. allocation (jobs s' ! k) = allocation (jobs s ! k)) \<and>
         sleeping_hosts_requested s s' i"
proof -
  from assms obtain alloc where al: "allocation (jobs s ! i) = Some alloc" "alloc \<noteq> []"
    by (auto simp: start_job_def Let_def split: option.splits if_splits)
  from assms al obtain r s1 where ch: "check_hosts s alloc True = Returns (r, s1)"
    by (auto simp: start_job_def Let_def split: outcome.splits)
  note c = check_hosts_requests [OF ch]
  show ?thesis
  proof (cases r)
    case False
    with assms al ch have "s' = s1" by (simp add: start_job_def)
    with c al show ?thesis by (auto simp: sleeping_hosts_requested_def)
  next
    case True
    define js where "js = (jobs s1)[i := job_start (current_time s1) (jobs s1 ! i)]"
    from assms al ch True
    have s': "s' = s1\<lparr>jobs := js, batsim_requests := batsim_requests s1 @
                       [ExecuteJob (current_time s1) (job_id (jobs s ! i)) alloc]\<rparr>"
      by (simp add: start_job_def js_def)
    have k1: "keeps s1 s'" unfolding s' by (rule keeps_jobs_requests_update)
    with c have k: "keeps s s'" by (blast intro: keeps_trans)
    have "allocation (js ! k) = allocation (jobs s ! k)" for k
    proof (cases "k = i \<and> i < length (jobs s1)")
      case True
      then show ?thesis using c by (simp add: js_def)
    next
      case False
      then have "js ! k = jobs s1 ! k" by (auto simp: js_def list_update_beyond)
      with c show ?thesis by simp
    qed
    moreover have "sleeping_hosts_requested s s' i"
      unfolding sleeping_hosts_requested_def
      using c al keeps_requested [OF k1] by (metis option.inject)
    ultimately show ?thesis using k by (simp add: s')
  qed
qed

lemma sleeping_hosts_requested_step:
  assumes "keeps s s1" and "keeps s1 s2"
    and "allocation (jobs s1 ! i) = allocation (jobs s ! i)"
  shows "sleeping_hosts_requested s s1 i \<Longrightarrow> sleeping_hosts_requested s s2 i"
    and "sleeping_hosts_requested s1 s2 i \<Longrightarrow> sleeping_hosts_requested s s2 i"
proof -
  show "sleeping_hosts_requested s s1 i \<Longrightarrow> sleeping_hosts_requested s s2 i"
    unfolding sleeping_hosts_requested_def
    using keeps_requested [OF assms(2)] by blast
  show "sleeping_hosts_requested s1 s2 i \<Longrightarrow> sleeping_hosts_requested s s2 i"
    unfolding sleeping_hosts_requested_def
    using keeps_platform_get [OF assms(1)] keeps_current_time [OF assms(1)] assms(3)
    by simp
qed

lemma start_jobs_requests:
  "start_jobs s idxs = Returns s' \<Longrightarrow>
   keeps s s' \<and> (\<forall>k. allocation (jobs s' ! k) = allocation (jobs s ! k)) \<and>
   (\<forall>i \<in> set idxs. sleeping_hosts_requested s s' i)"
proof (induction s idxs rule: start_jobs.induct)
  case (1 s)
  then show ?case by simp
next
  case (2 s i0 rest)
  from "2.prems" obtain s1 where one: "start_job s i0 = Returns s1"
    and rec: "start_jobs s1 rest = Returns s'"
    by (auto split: outcome.splits)
  note a = start_job_requests [OF one]
  note ih = "2.IH" [OF one rec]
  from a ih have k: "keeps s s'" by (blast intro: keeps_trans)
  have "sleeping_hosts_requested s s' i0"
    using sleeping_hosts_requested_step(1) [of s s1 s' i0] a ih by simp
  moreover have "\<forall>i \<in> set rest. sleeping_hosts_requested s s' i"
    using sleeping_hosts_requested_step(2) [of s s1 s'] a ih by simp
  ultimately show ?case using k a ih by simp
qed

text \<open>
  C9: when an attempt to start the runnable jobs of a running handler returns, every
  host that was sleeping and belongs to the allocation of a runnable job is named by a
  pending set-resource-state request for its default power state, stamped with the
  current time, and that job has not been started: it is still allocated. The caller
  made no switch-on request.
\<close>

theorem sleeping_hosts_switched_on:
  assumes "start_runnable_jobs s = Returns s'"
    and "is_running s"
    and "i < length (jobs s)"
    and "is_runnable (jobs s ! i)"
    and "allocation (jobs s ! i) = Some alloc"
    and "h \<in> set alloc"
    and "platform_get s h = Inr host"
    and "is_sleeping host"
  shows "(\<exists>p. get_default_pstate host = Inr p \<and>
              requested (current_time s) h p (batsim_requests s')) \<and>
         jstate (jobs s' ! i) = Allocated"
proof -
  from assms(1,2) have run: "start_jobs s (runnable_jobs s) = Returns s'"
    by (auto simp: start_runnable_jobs_def split: if_splits)
  from assms(3,4) have "i \<in> set (runnable_jobs s)" by (simp add: runnable_jobs_def)
  with start_jobs_requests [OF run] have "sleeping_hosts_requested s s' i" by simp
  with assms(5-8) have first: "\<exists>p. get_default_pstate host = Inr p \<and>
      requested (current_time s) h p (batsim_requests s')"
    unfolding sleeping_hosts_requested_def by blast
  from assms(7,8) have "\<not> host_is_idle s h"
    by (simp add: host_is_idle_def is_idle_def is_sleeping_def)
  moreover from run have "final (start_jobs s (runnable_jobs s)) = s'" by simp
  ultimately have "jobs s' ! i = jobs s ! i"
    using start_jobs_effect [of s "runnable_jobs s" s'] assms(5,6) by blast
  with assms(4) first show ?thesis by (simp add: is_runnable_def)
qed

theorem sleeping_hosts_switched_on_witness:
  "(\<exists>p. get_default_pstate (host_in Sleeping 2) = Inr p \<and>
        requested
          (current_time (running_handler [0 \<mapsto> host_in Idle 0, 1 \<mapsto> host_in Sleeping 2]
             [job_in ''j1'' Allocated (Some [0, 1])] []))
          1 p
          (batsim_requests (final (start_runnable_jobs
             (running_handler [0 \<mapsto> host_in Idle 0, 1 \<mapsto> host_in Sleeping 2]
                [job_in ''j1'' Allocated (Some [0, 1])] []))))) \<and>
   jstate (jobs (final (start_runnable_jobs
      (running_handler [0 \<mapsto> host_in Idle 0, 1 \<mapsto> host_in Sleeping 2]
         [job_in ''j1'' Allocated (Some [0, 1])] []))) ! 0) = Allocated"
proof -
  let ?s = "running_handler [0 \<mapsto> host_in Idle 0, 1 \<mapsto> host_in Sleeping 2]
              [job_in ''j1'' Allocated (Some [0, 1])] []"
  have a: "start_runnable_jobs ?s = Returns (final (start_runnable_jobs ?s))"
    by (simp add: eval_defs)
  have b: "is_running ?s" "0 < length (jobs ?s)" "is_runnable (jobs ?s ! 0)"
    "allocation (jobs ?s ! 0) = Some [0, 1]" "(1::nat) \<in> set [0, 1]"
    "platform_get ?s 1 = Inr (host_in Sleeping 2)" "is_sleeping (host_in Sleeping 2)"
    by (simp_all add: eval_defs)
  from sleeping_hosts_switched_on [OF a b] show ?thesis .
qed

section \<open>The mirrored power state after a resource-state-changed event\<close>

lemma mirrors_platform_put:
  "platform s \<noteq> None \<Longrightarrow>
   mirrors (platform_put k h' s) h st = (if h = k then pstate h' = Some st else mirrors s h st)"
  by (cases "platform s") (auto simp: mirrors_def platform_get_def platform_put_def)

lemma platform_get_Inr_loaded: "platform_get s h = Inr host \<Longrightarrow> platform s \<noteq> None"
  by (cases "platform s") (auto simp: platform_get_def)

lemma host_state_changed_hosts_mirrors:
  "host_state_changed_hosts s hs st = Returns s' \<Longrightarrow>
   (\<forall>h. mirrors s h st \<or> h \<in> set hs \<longrightarrow> mirrors s' h st)"
proof (induction s hs st rule: host_state_changed_hosts.induct)
  case (1 s st)
  then show ?case by simp
next
  case (2 s h_id rest st)
  from "2.prems" obtain host where g: "platform_get s h_id = Inr host"
    by (cases "platform_get s h_id") auto
  from "2.prems" g obtain p where p: "pstate host = Some p"
    by (cases "pstate host") auto
  from "2.prems" g p obtain host' where a: "apply_state_change host st = Inr host'"
    by (cases "apply_state_change host st") auto
  from "2.prems" g p a have m: "pstate host' = Some st"
    and rec: "host_state_changed_hosts (platform_put h_id host' s) rest st = Returns s'"
    by (auto split: if_splits)
  from m have "\<not> pstate host' \<noteq> Some st" by simp
  note ih = "2.IH" [OF g p a this rec]
  have "mirrors (platform_put h_id host' s) h st" if "mirrors s h st \<or> h \<in> set (h_id # rest)"
    and "h \<notin> set rest" for h
    using that m platform_get_Inr_loaded [OF g] by (auto simp: mirrors_platform_put)
  with ih show ?case by blast
qed

lemma host_state_changed_hosts_append:
  "host_state_changed_hosts s (xs @ ys) st =
     (case host_state_changed_hosts s xs st of
        Returns s1 \<Rightarrow> host_state_changed_hosts s1 ys st
      | Raises e s1 \<Rightarrow> Raises e s1
      | Blocks s1 \<Rightarrow> Blocks s1)"
  by (induction s xs st rule: host_state_changed_hosts.induct)
     (auto split: sum.splits option.splits)

lemma platform_loaded_host_state_changed_hosts:
  "host_state_changed_hosts s hs st = Returns s' \<Longrightarrow> (platform s' = None) = (platform s = None)"
  by (induction s hs st rule: host_state_changed_hosts.induct)
     (auto simp: platform_put_def split: sum.splits option.splits if_splits)

text \<open>
  C2: when the handler of a resource-state-changed event returns, its loop over the
  reported hosts has ended with every reported host mirroring the reported power-state
  id, and only then were runnable jobs started. When the loop has passed some of the
  reported hosts and the rules, applied to the next one, leave a mirrored id that
  differs from the reported one, the handler raises SystemError, with that host as the
  rules left it: the mismatch is not corrected.
\<close>

theorem mirrored_pstate_checked:
  "(on_batsim_host_state_changed s hs st = Returns s' \<longrightarrow>
      (\<exists>s1. host_state_changed_hosts s hs st = Returns s1 \<and>
            (\<forall>h \<in> set hs. mirrors s1 h st) \<and> start_runnable_jobs s1 = Returns s')) \<and>
   (host_state_changed_hosts s pre st = Returns s1 \<and>
    platform_get s1 h = Inr host \<and> pstate host = Some p \<and>
    apply_state_change host st = Inr host' \<and> pstate host' \<noteq> Some st \<longrightarrow>
      on_batsim_host_state_changed s (pre @ h # rest) st =
        Raises SystemError (platform_put h host' s1))"
proof (intro conjI impI)
  assume r: "on_batsim_host_state_changed s hs st = Returns s'"
  then obtain s1 where s1: "host_state_changed_hosts s hs st = Returns s1"
    and st: "start_runnable_jobs s1 = Returns s'"
    by (auto simp: on_batsim_host_state_changed_def split: if_splits outcome.splits)
  from host_state_changed_hosts_mirrors [OF s1] have "\<forall>h \<in> set hs. mirrors s1 h st" by blast
  with s1 st show "\<exists>s1. host_state_changed_hosts s hs st = Returns s1 \<and>
            (\<forall>h \<in> set hs. mirrors s1 h st) \<and> start_runnable_jobs s1 = Returns s'"
    by blast
next
  assume a: "host_state_changed_hosts s pre st = Returns s1 \<and>
    platform_get s1 h = Inr host \<and> pstate host = Some p \<and>
    apply_state_change host st = Inr host' \<and> pstate host' \<noteq> Some st"
  then have "platform s1 \<noteq> None" by (auto dest: platform_get_Inr_loaded)
  with a have ne: "platform s \<noteq> None"
    by (auto dest: platform_loaded_host_state_changed_hosts)
  from a have "host_state_changed_hosts s (pre @ h # rest) st =
                 Raises SystemError (platform_put h host' s1)"
    by (simp add: host_state_changed_hosts_append)
  with ne show "on_batsim_host_state_changed s (pre @ h # rest) st =
      Raises SystemError (platform_put h host' s1)"
    by (cases "platform s") (auto simp: on_batsim_host_state_changed_def)
qed

lemmas eval_defs2 = on_batsim_host_state_changed_def apply_state_change_def
  is_switching_off_def is_switching_on_def is_computing_def host_set_off_def host_set_on_def
  get_sleep_pstate_def host_set_computation_pstate_def mirrors_def

theorem mirrored_pstate_checked_witness:
  "(\<exists>s1. host_state_changed_hosts
           (running_handler [0 \<mapsto> host_in SwitchingOff 0, 1 \<mapsto> host_in Sleeping 2] [] [])
           [0, 1] 2 = Returns s1 \<and>
         mirrors s1 0 2 \<and> mirrors s1 1 2) \<and>
   on_batsim_host_state_changed
     (running_handler [0 \<mapsto> host_in SwitchingOn 2, 1 \<mapsto> host_in Sleeping 2] [] []) [0, 1] 0 =
     Raises SystemError
       (platform_put 1 (host_in Sleeping 2)
          (final (host_state_changed_hosts
             (running_handler [0 \<mapsto> host_in SwitchingOn 2, 1 \<mapsto> host_in Sleeping 2] [] [])
             [0] 0)))"
proof -
  let ?s = "running_handler [0 \<mapsto> host_in SwitchingOff 0, 1 \<mapsto> host_in Sleeping 2] [] []"
  let ?t = "running_handler [0 \<mapsto> host_in SwitchingOn 2, 1 \<mapsto> host_in Sleeping 2] [] []"
  let ?t1 = "final (host_state_changed_hosts ?t [0] 0)"
  have a: "on_batsim_host_state_changed ?s [0, 1] 2 =
             Returns (final (on_batsim_host_state_changed ?s [0, 1] 2))"
    by (simp add: eval_defs eval_defs2)
  have b: "host_state_changed_hosts ?t [0] 0 = Returns ?t1 \<and>
    platform_get ?t1 1 = Inr (host_in Sleeping 2) \<and> pstate (host_in Sleeping 2) = Some 2 \<and>
    apply_state_change (host_in Sleeping 2) 0 = Inr (host_in Sleeping 2) \<and>
    pstate (host_in Sleeping 2) \<noteq> Some 0"
    by (simp add: eval_defs eval_defs2)
  from mirrored_pstate_checked [where s = ?s and hs = "[0, 1]" and st = 2
      and s' = "final (on_batsim_host_state_changed ?s [0, 1] 2)"] a
  obtain s1 where "host_state_changed_hosts ?s [0, 1] 2 = Returns s1"
    and "\<forall>h \<in> set [0, 1]. mirrors s1 h 2"
    by blast
  then have "\<exists>s1. host_state_changed_hosts ?s [0, 1] 2 = Returns s1 \<and>
         mirrors s1 0 2 \<and> mirrors s1 1 2"
    by simp
  moreover from mirrored_pstate_checked [where s = ?t and pre = "[0]" and ?s1.0 = ?t1
      and h = 1 and host = "host_in Sleeping 2"
      and p = 2 and st = 0 and host' = "host_in Sleeping 2" and rest = "[]"] b
  have "on_batsim_host_state_changed ?t ([0] @ [1]) 0 =
     Raises SystemError (platform_put 1 (host_in Sleeping 2) ?t1)"
    by blast
  ultimately show ?thesis by simp
qed

section \<open>Callbacks and the timer event\<close>

lemma raw_time_invoke [simp]: "raw_time (invoke s c) = raw_time s"
  by (cases c) simp_all

lemma callbacks_invoke [simp]: "callbacks (invoke s c) = callbacks s"
  by (cases c) simp_all

lemma invoked_invoke [simp]: "invoked (invoke s c) = invoked s @ [(c, current_time s)]"
  by (cases c) simp_all

lemma foldl_invoke:
  "raw_time (foldl invoke s cs) = raw_time s \<and>
   callbacks (foldl invoke s cs) = callbacks s \<and>
   invoked (foldl invoke s cs) = invoked s @ map (\<lambda>c. (c, current_time s)) cs"
  by (induction cs arbitrary: s) (simp_all add: current_time_def)

lemma callbacks_set_batsim_call_me_later [simp]:
  "callbacks (set_batsim_call_me_later s a) = callbacks s"
  by (simp add: set_batsim_call_me_later_def)

text \<open>
  What the handler of the timer-fired event does, in terms of the current simulation time
  as \<^verbatim>\<open>current_time\<close> reads it: it calls every callback stored under that time, once
  each, in the order of the list, with that time as argument, and calls no other
  callback; it removes the entry of that time and leaves every other entry as it was. The
  list is in registration order: set_callback appends the callback to the entry of its
  time and changes no other entry. The callbacks themselves are taken to change nothing
  of the handler.
\<close>

lemma requested_call_at_current_time:
  "invoked (on_batsim_requested_call s) =
     invoked s @ map (\<lambda>c. (c, current_time s)) (callbacks_at s (current_time s)) \<and>
   callbacks (on_batsim_requested_call s) (current_time s) = None \<and>
   (\<forall>t. t \<noteq> current_time s \<longrightarrow>
        callbacks (on_batsim_requested_call s) t = callbacks s t) \<and>
   (set_callback s a (Callable c) = Returns s' \<longrightarrow>
      callbacks_at s' a = callbacks_at s a @ [c] \<and>
      (\<forall>t. t \<noteq> a \<longrightarrow> callbacks s' t = callbacks s t))"
proof (intro conjI allI impI)
  show "invoked (on_batsim_requested_call s) =
     invoked s @ map (\<lambda>c. (c, current_time s)) (callbacks_at s (current_time s))"
    by (simp add: on_batsim_requested_call_def callbacks_at_def foldl_invoke Let_def
             split: option.splits)
  show "callbacks (on_batsim_requested_call s) (current_time s) = None"
    by (simp add: on_batsim_requested_call_def foldl_invoke Let_def current_time_def
             split: option.splits)
  show "callbacks (on_batsim_requested_call s) t = callbacks s t" if "t \<noteq> current_time s" for t
    using that
    by (simp add: on_batsim_requested_call_def foldl_invoke Let_def current_time_def
             split: option.splits)
next
  assume "set_callback s a (Callable c) = Returns s'"
  then have s': "s' = set_batsim_call_me_later
                        (s\<lparr>callbacks := (callbacks s)(a \<mapsto> callbacks_at s a @ [c])\<rparr>) a"
    by (auto simp: set_callback_def split: if_splits)
  show "callbacks_at s' a = callbacks_at s a @ [c]"
    by (simp add: s' callbacks_at_def)
  show "callbacks s' t = callbacks s t" if "t \<noteq> a" for t
    using that by (simp add: s')
qed

text \<open>
  A timer event that arrives at a time \<open>t\<close> which \<^verbatim>\<open>current_time\<close> reads unchanged (a
  time with at most one decimal place) fires the callbacks registered for exactly \<open>t\<close>.
\<close>

lemma timer_event_on_the_grid:
  assumes "round1 t = t"
  shows "\<exists>s'. handle_events s [RequestedCall t] = Returns s' \<and>
      invoked s' = invoked s @ map (\<lambda>c. (c, t)) (callbacks_at s t) \<and>
      callbacks s' t = None \<and>
      (\<forall>u. u \<noteq> t \<longrightarrow> callbacks s' u = callbacks s u)"
proof -
  let ?s = "s\<lparr>raw_time := t\<rparr>"
  have ct: "current_time ?s = t"
    using assms by (simp add: current_time_def)
  have "handle_events s [RequestedCall t] = Returns (on_batsim_requested_call ?s)"
    by simp
  moreover have "invoked (on_batsim_requested_call ?s) =
      invoked s @ map (\<lambda>c. (c, t)) (callbacks_at s t)"
    using requested_call_at_current_time [of ?s] by (simp add: ct callbacks_at_def)
  moreover have "callbacks (on_batsim_requested_call ?s) t = None"
    using requested_call_at_current_time [of ?s] by (simp add: ct)
  moreover have "\<forall>u. u \<noteq> t \<longrightarrow> callbacks (on_batsim_requested_call ?s) u = callbacks s u"
    using requested_call_at_current_time [of ?s] by (simp add: ct)
  ultimately show ?thesis by blast
qed

lemma round1_10: "round1 10 = 10"
  by code_simp

lemma round1_41_4: "round1 (41 / 4) = 51 / 5"
  by code_simp

lemmas eval_defs_timer = timer_start_def timer_first_def timer_handler_def
  proceed_time_def proceed_setup_def truthy_def set_callback_def
  set_batsim_call_me_later_def goto_next_batsim_event_def send_requests_def
  handle_batsim_events_def on_batsim_requested_call_def time_limit_reached_def
  callbacks_at_def round1_41_4

text \<open>
  C6: set_callback stores the callback under the time it is given
  (\<^verbatim>\<open>self.__callbacks[at]\<close>), and the handler of the timer event looks the callbacks up
  under \<^verbatim>\<open>self.current_time\<close>, the event's time rounded to one decimal place. At a
  time with a second decimal place the two keys differ. A running handler at time 0
  registers a first callback for 10.2 and a second callback for 10.25; both registrations
  are accepted. The engine's timer event for 10.25 arrives during proceed_time(): the call
  returns, the second callback, registered for exactly 10.25, has not been called and
  its entry is still there, and the first callback, registered for 10.2, has been called
  with 10.2 as argument. The docstring of set_callback says the simulation will call the
  function at the defined time.
\<close>

theorem requested_call_misses_callback:
  "is_running timer_start \<and> current_time timer_start = 0 \<and>
   callbacks timer_start = Map.empty \<and> invoked timer_start = [] \<and>
   set_callback timer_start (51 / 5) (Callable (UserCallback 2)) = Returns timer_first \<and>
   set_callback timer_first (41 / 4) (Callable (UserCallback 1)) = Returns timer_handler \<and>
   callbacks timer_handler (41 / 4) = Some [UserCallback 1] \<and>
   callbacks timer_handler (51 / 5) = Some [UserCallback 2] \<and>
   proceed_time fadd timer_handler None =
     Returns (final (proceed_time fadd timer_handler None)) \<and>
   network_outbox (final (proceed_time fadd timer_handler None)) =
     [(0, [CallMeLater 0 (51 / 5), CallMeLater 0 (41 / 4)])] \<and>
   network_inbox (final (proceed_time fadd timer_handler None)) = [] \<and>
   raw_time (final (proceed_time fadd timer_handler None)) = 41 / 4 \<and>
   invoked (final (proceed_time fadd timer_handler None)) = [(UserCallback 2, 51 / 5)] \<and>
   callbacks (final (proceed_time fadd timer_handler None)) (41 / 4) =
     Some [UserCallback 1] \<and>
   callbacks (final (proceed_time fadd timer_handler None)) (51 / 5) = None"
  by (simp add: eval_defs eval_defs_timer)

section \<open>The rounded current time\<close>

lemma round_half_even_near:
  "\<bar>of_int (round_half_even x) - x\<bar> \<le> 1 / 2"
proof -
  have "of_int \<lfloor>x\<rfloor> \<le> x" "x < of_int \<lfloor>x\<rfloor> + 1" by linarith+
  then show ?thesis
    by (auto simp: round_half_even_def Let_def)
qed

lemma round1_near: "\<bar>round1 x - x\<bar> \<le> 1 / 20"
proof -
  have "\<bar>of_int (round_half_even (x * 10)) - x * 10\<bar> \<le> 1 / 2"
    by (rule round_half_even_near)
  then show ?thesis by (simp add: round1_def field_simps abs_le_iff)
qed

lemma round1_one_decimal: "round1 x * 10 = of_int (round_half_even (x * 10))"
  by (simp add: round1_def)

lemma timestamp_add_resource [simp]: "timestamp (add_resource h r) = timestamp r"
  by (cases r) simp_all

lemma is_old_request_timestamp: "is_old_request ct p r \<Longrightarrow> timestamp r = ct"
  by (cases r) simp_all

lemma add_to_old_request_stamped:
  "add_to_old_request ct p h rs = Some rs' \<Longrightarrow>
   \<forall>r \<in> set rs'. r \<in> set rs \<or> timestamp r = ct"
proof (induction rs arbitrary: rs')
  case Nil
  then show ?case by simp
next
  case (Cons r rs)
  show ?case
  proof (cases "is_old_request ct p r")
    case True
    then have "timestamp r = ct" by (rule is_old_request_timestamp)
    with True Cons.prems show ?thesis by auto
  next
    case False
    with Cons.prems obtain rs2 where "add_to_old_request ct p h rs = Some rs2" "rs' = r # rs2"
      by auto
    with Cons.IH [OF this(1)] show ?thesis by auto
  qed
qed

lemma stamped_set_batsim_host_pstate: "stamped s (set_batsim_host_pstate s h p)"
  by (auto simp: stamped_def set_batsim_host_pstate_def list_all_iff
           split: option.splits dest: add_to_old_request_stamped)

lemma stamped_set_batsim_call_me_later: "stamped s (set_batsim_call_me_later s a)"
  by (auto simp: stamped_def set_batsim_call_me_later_def list_all_iff)

lemma check_hosts_ready_unchanged:
  "check_hosts s hs b = Returns (True, s') \<Longrightarrow> s' = s"
proof (induction s hs b rule: check_hosts.induct)
  case (1 s is_ready)
  then show ?case by simp
next
  case (2 s h_id rest is_ready)
  from "2.prems" obtain host where g: "platform_get s h_id = Inr host"
    by (cases "platform_get s h_id") auto
  define r where "r = (if \<not> is_idle host then False else is_ready)"
  show ?case
  proof (cases "is_sleeping host")
    case False
    with "2.prems" g have "check_hosts s rest r = Returns (True, s')"
      by (simp add: r_def Let_def)
    from "2.IH"(2) [OF g r_def False this] show ?thesis .
  next
    case True
    with "2.prems" g obtain s1 where s1: "switch_on s [h_id] = Returns s1"
      and rec: "check_hosts s1 rest r = Returns (True, s')"
      by (auto simp: r_def Let_def split: outcome.splits)
    from check_hosts_ready [OF rec] have "r" by simp
    with True show ?thesis by (auto simp: r_def is_idle_def is_sleeping_def split: if_splits)
  qed
qed

lemma start_job_started:
  assumes "start_job s i = Returns s'" and "i < length (jobs s)"
    and "jobs s' ! i \<noteq> jobs s ! i"
  shows "start_time (jobs s' ! i) = Some (current_time s) \<and>
         (\<exists>alloc. batsim_requests s' =
            batsim_requests s @ [ExecuteJob (current_time s) (job_id (jobs s ! i)) alloc])"
proof -
  from assms(1) obtain alloc where al: "allocation (jobs s ! i) = Some alloc" "alloc \<noteq> []"
    by (auto simp: start_job_def Let_def split: option.splits if_splits)
  from assms(1) al obtain r s1 where ch: "check_hosts s alloc True = Returns (r, s1)"
    by (auto simp: start_job_def Let_def split: outcome.splits)
  show ?thesis
  proof (cases r)
    case False
    with assms(1) al ch have "s' = s1" by (simp add: start_job_def)
    with check_hosts_requests [OF ch] assms(3) show ?thesis by simp
  next
    case True
    with ch have "s1 = s" by (simp add: check_hosts_ready_unchanged)
    with assms(1,2) al ch True show ?thesis
      by (auto simp: start_job_def job_start_def Let_def)
  qed
qed

text \<open>
  C10: the property current_time is the internal time rounded to one decimal place (ten
  times it is an integer, and it is within a twentieth of the internal time). It is this
  value that stamps the flushed message, a new call-me-later, set-resource-state,
  kill-job, reject-job and execute-job request, that is recorded as the start time of a
  started job, that set_callback compares its argument with, and that selects and is
  passed to the callbacks fired by a timer event.
\<close>

theorem rounded_time_is_used:
  "current_time s = round1 (raw_time s) \<and>
   current_time s * 10 = of_int (round_half_even (raw_time s * 10)) \<and>
   \<bar>current_time s - raw_time s\<bar> \<le> 1 / 20 \<and>
   network_outbox (send_requests s) = network_outbox s @ [(current_time s, batsim_requests s)] \<and>
   stamped s (set_batsim_call_me_later s a) \<and>
   stamped s (set_batsim_host_pstate s h p) \<and>
   (kill_job s jid = Returns s1 \<longrightarrow>
      batsim_requests s1 = batsim_requests s @ [KillJob (current_time s) jid]) \<and>
   (reject_job s jid = Returns s2 \<longrightarrow>
      batsim_requests s2 = batsim_requests s @ [RejectJob (current_time s) jid]) \<and>
   (start_job s i = Returns s3 \<and> i < length (jobs s) \<and> jobs s3 ! i \<noteq> jobs s ! i \<longrightarrow>
      start_time (jobs s3 ! i) = Some (current_time s) \<and>
      (\<exists>alloc. batsim_requests s3 =
         batsim_requests s @ [ExecuteJob (current_time s) (job_id (jobs s ! i)) alloc])) \<and>
   (is_running s \<longrightarrow>
      (set_callback s a (Callable c) = Raises ValueError s) = (a \<le> current_time s)) \<and>
   invoked (on_batsim_requested_call s) =
     invoked s @ map (\<lambda>c. (c, current_time s)) (callbacks_at s (current_time s))"
proof (intro conjI impI)
  show "current_time s = round1 (raw_time s)" by (simp add: current_time_def)
  show "current_time s * 10 = of_int (round_half_even (raw_time s * 10))"
    by (simp add: current_time_def round1_one_decimal)
  show "\<bar>current_time s - raw_time s\<bar> \<le> 1 / 20"
    unfolding current_time_def by (rule round1_near)
  show "network_outbox (send_requests s) =
          network_outbox s @ [(current_time s, batsim_requests s)]"
    by (simp add: send_requests_def)
  show "stamped s (set_batsim_call_me_later s a)" by (rule stamped_set_batsim_call_me_later)
  show "stamped s (set_batsim_host_pstate s h p)" by (rule stamped_set_batsim_host_pstate)
  show "batsim_requests s1 = batsim_requests s @ [KillJob (current_time s) jid]"
    if "kill_job s jid = Returns s1"
    using that by (auto simp: kill_job_def split: if_splits option.splits)
  show "batsim_requests s2 = batsim_requests s @ [RejectJob (current_time s) jid]"
    if "reject_job s jid = Returns s2"
    using that by (auto simp: reject_job_def split: if_splits option.splits)
  show "start_time (jobs s3 ! i) = Some (current_time s)"
    if "start_job s i = Returns s3 \<and> i < length (jobs s) \<and> jobs s3 ! i \<noteq> jobs s ! i"
    using that start_job_started [of s i s3] by simp
  show "\<exists>alloc. batsim_requests s3 =
         batsim_requests s @ [ExecuteJob (current_time s) (job_id (jobs s ! i)) alloc]"
    if "start_job s i = Returns s3 \<and> i < length (jobs s) \<and> jobs s3 ! i \<noteq> jobs s ! i"
    using that start_job_started [of s i s3] by simp
  show "(set_callback s a (Callable c) = Raises ValueError s) = (a \<le> current_time s)"
    if "is_running s"
    using that by (simp add: set_callback_def)
  show "invoked (on_batsim_requested_call s) =
     invoked s @ map (\<lambda>c. (c, current_time s)) (callbacks_at s (current_time s))"
    by (simp add: on_batsim_requested_call_def callbacks_at_def foldl_invoke Let_def
             split: option.splits)
qed

lemma round1_513_50: "round1 (513 / 50) = 103 / 10"
  by code_simp

theorem rounded_time_is_used_witness:
  "current_time ((running_handler Map.empty [job_in ''j1'' Submitted None] [])
                   \<lparr>raw_time := 513 / 50\<rparr>) = 103 / 10 \<and>
   batsim_requests (final (kill_job
       ((running_handler Map.empty [job_in ''j1'' Submitted None] [])\<lparr>raw_time := 513 / 50\<rparr>)
       ''j1'')) = [KillJob (103 / 10) ''j1''] \<and>
   batsim_requests (final (reject_job
       ((running_handler Map.empty [job_in ''j1'' Submitted None] [])\<lparr>raw_time := 513 / 50\<rparr>)
       ''j1'')) = [RejectJob (103 / 10) ''j1''] \<and>
   start_time (jobs (final (start_job
       ((running_handler [0 \<mapsto> host_in Idle 0] [job_in ''j2'' Allocated (Some [0])] [])
          \<lparr>raw_time := 513 / 50\<rparr>) 0)) ! 0) = Some (103 / 10) \<and>
   set_callback
     ((running_handler Map.empty [job_in ''j1'' Submitted None] [])\<lparr>raw_time := 513 / 50\<rparr>)
     (257 / 25) (Callable (UserCallback 1)) =
   Raises ValueError
     ((running_handler Map.empty [job_in ''j1'' Submitted None] [])\<lparr>raw_time := 513 / 50\<rparr>)"
proof -
  let ?s = "(running_handler Map.empty [job_in ''j1'' Submitted None] [])\<lparr>raw_time := 513 / 50\<rparr>"
  let ?u = "(running_handler [0 \<mapsto> host_in Idle 0] [job_in ''j2'' Allocated (Some [0])] [])
              \<lparr>raw_time := 513 / 50\<rparr>"
  note t = rounded_time_is_used [where s = ?s and jid = "''j1''"
      and ?s1.0 = "final (kill_job ?s ''j1'')" and ?s2.0 = "final (reject_job ?s ''j1'')"
      and a = "257 / 25" and c = "UserCallback 1"]
  note u = rounded_time_is_used [where s = ?u and i = 0 and ?s3.0 = "final (start_job ?u 0)"]
  have raw: "raw_time ?s = 513 / 50" "raw_time ?u = 513 / 50" by simp_all
  from t have "current_time ?s = round1 (raw_time ?s)" by blast
  then have ct: "current_time ?s = 103 / 10" by (simp only: raw round1_513_50)
  from u have "current_time ?u = round1 (raw_time ?u)" by blast
  then have cu: "current_time ?u = 103 / 10" by (simp only: raw round1_513_50)
  have k: "kill_job ?s ''j1'' = Returns (final (kill_job ?s ''j1''))"
    by (simp add: kill_job_def running_handler_def handler_init_def is_running_def job_in_def)
  have rj: "reject_job ?s ''j1'' = Returns (final (reject_job ?s ''j1''))"
    by (simp add: reject_job_def running_handler_def handler_init_def is_running_def job_in_def
          is_submitted_def)
  have r: "is_running ?s" "batsim_requests ?s = []"
    by (simp_all add: running_handler_def handler_init_def is_running_def)
  from t k have "batsim_requests (final (kill_job ?s ''j1'')) =
                   batsim_requests ?s @ [KillJob (current_time ?s) ''j1'']"
    by blast
  then have kk: "batsim_requests (final (kill_job ?s ''j1'')) = [KillJob (103 / 10) ''j1'']"
    by (simp only: ct r append_Nil)
  from t rj have "batsim_requests (final (reject_job ?s ''j1'')) =
                   batsim_requests ?s @ [RejectJob (current_time ?s) ''j1'']"
    by blast
  then have rr: "batsim_requests (final (reject_job ?s ''j1'')) = [RejectJob (103 / 10) ''j1'']"
    by (simp only: ct r append_Nil)
  have st: "start_job ?u 0 = Returns (final (start_job ?u 0)) \<and> 0 < length (jobs ?u) \<and>
            jobs (final (start_job ?u 0)) ! 0 \<noteq> jobs ?u ! 0"
    by (simp add: eval_defs round1_513_50)
  with u have "start_time (jobs (final (start_job ?u 0)) ! 0) = Some (current_time ?u)"
    by blast
  then have ss: "start_time (jobs (final (start_job ?u 0)) ! 0) = Some (103 / 10)"
    by (simp only: cu)
  from t r(1) have "(set_callback ?s (257 / 25) (Callable (UserCallback 1)) = Raises ValueError ?s)
                      = (257 / 25 \<le> current_time ?s)"
    by blast
  moreover have "(257 / 25 :: rat) \<le> current_time ?s"
    unfolding ct by simp
  ultimately have "set_callback ?s (257 / 25) (Callable (UserCallback 1)) = Raises ValueError ?s"
    by blast
  with ct kk rr ss show ?thesis by blast
qed

section \<open>The state at an illegal-transition error\<close>

lemma host_switch_off_same: "host_switch_off h = Inr h' \<Longrightarrow> h' = h"
  by (auto simp: host_switch_off_def split: if_splits)

lemma host_switch_on_same: "host_switch_on h = Inr h' \<Longrightarrow> h' = h"
  by (auto simp: host_switch_on_def split: if_splits)

lemma switch_off_hosts_raises:
  "switch_off_hosts s hs = Raises e s' \<Longrightarrow>
   \<exists>pre h rest. hs = pre @ h # rest \<and> switch_off_hosts s pre = Returns s'"
proof (induction s hs rule: switch_off_hosts.induct)
  case (1 s)
  then show ?case by simp
next
  case (2 s h_id rest)
  have first: ?case if "s' = s"
  proof -
    have "h_id # rest = [] @ h_id # rest \<and> switch_off_hosts s [] = Returns s'"
      using that by simp
    then show ?thesis by blast
  qed
  show ?case
  proof (cases "platform_get s h_id")
    case (Inl e')
    with "2.prems" have "s' = s" by simp
    then show ?thesis by (rule first)
  next
    case g: (Inr host)
    show ?thesis
    proof (cases "host_switch_off host")
      case (Inl e')
      with "2.prems" g have "s' = s" by simp
      then show ?thesis by (rule first)
    next
      case off: (Inr host')
      then have same: "host' = host" by (rule host_switch_off_same)
      show ?thesis
      proof (cases "get_sleep_pstate host'")
        case (Inl e')
        with "2.prems" g off same have "s' = s" by (simp add: platform_put_same)
        then show ?thesis by (rule first)
      next
        case p: (Inr p)
        let ?s1 = "set_batsim_host_pstate (platform_put h_id host' s) h_id p"
        from "2.prems" g off p have "switch_off_hosts ?s1 rest = Raises e s'" by simp
        from "2.IH" [OF g off p this] obtain dn h rest' where
          d: "rest = dn @ h # rest'" "switch_off_hosts ?s1 dn = Returns s'"
          by blast
        then have "h_id # rest = (h_id # dn) @ h # rest' \<and>
                   switch_off_hosts s (h_id # dn) = Returns s'"
          using g off p by simp
        then show ?thesis by blast
      qed
    qed
  qed
qed

lemma switch_on_hosts_raises:
  "switch_on_hosts s hs = Raises e s' \<Longrightarrow>
   \<exists>pre h rest. hs = pre @ h # rest \<and> switch_on_hosts s pre = Returns s'"
proof (induction s hs rule: switch_on_hosts.induct)
  case (1 s)
  then show ?case by simp
next
  case (2 s h_id rest)
  have first: ?case if "s' = s"
  proof -
    have "h_id # rest = [] @ h_id # rest \<and> switch_on_hosts s [] = Returns s'"
      using that by simp
    then show ?thesis by blast
  qed
  show ?case
  proof (cases "platform_get s h_id")
    case (Inl e')
    with "2.prems" have "s' = s" by simp
    then show ?thesis by (rule first)
  next
    case g: (Inr host)
    show ?thesis
    proof (cases "host_switch_on host")
      case (Inl e')
      with "2.prems" g have "s' = s" by simp
      then show ?thesis by (rule first)
    next
      case on: (Inr host')
      then have same: "host' = host" by (rule host_switch_on_same)
      show ?thesis
      proof (cases "get_default_pstate host'")
        case (Inl e')
        with "2.prems" g on same have "s' = s" by (simp add: platform_put_same)
        then show ?thesis by (rule first)
      next
        case p: (Inr p)
        let ?s1 = "set_batsim_host_pstate (platform_put h_id host' s) h_id p"
        from "2.prems" g on p have "switch_on_hosts ?s1 rest = Raises e s'" by simp
        from "2.IH" [OF g on p this] obtain dn h rest' where
          d: "rest = dn @ h # rest'" "switch_on_hosts ?s1 dn = Returns s'"
          by blast
        then have "h_id # rest = (h_id # dn) @ h # rest' \<and>
                   switch_on_hosts s (h_id # dn) = Returns s'"
          using g on p by simp
        then show ?thesis by blast
      qed
    qed
  qed
qed

lemma switch_off_hosts_append:
  "switch_off_hosts s (xs @ ys) =
     (case switch_off_hosts s xs of
        Returns s1 \<Rightarrow> switch_off_hosts s1 ys
      | Raises e s1 \<Rightarrow> Raises e s1
      | Blocks s1 \<Rightarrow> Blocks s1)"
  by (induction s xs rule: switch_off_hosts.induct) (simp_all split: sum.splits)

lemma switch_on_hosts_append:
  "switch_on_hosts s (xs @ ys) =
     (case switch_on_hosts s xs of
        Returns s1 \<Rightarrow> switch_on_hosts s1 ys
      | Raises e s1 \<Rightarrow> Raises e s1
      | Blocks s1 \<Rightarrow> Blocks s1)"
  by (induction s xs rule: switch_on_hosts.induct) (simp_all split: sum.splits)

lemma switch_off_stops_at:
  assumes "switch_off s pre = Returns s1" and "platform_get s1 h = Inr host"
    and "\<not> is_idle host"
  shows "switch_off s (pre @ h # rest) = Raises RuntimeError s1"
proof -
  from assms(1) have run: "is_running s" "platform s \<noteq> None"
    and pre: "switch_off_hosts s pre = Returns s1"
    by (auto simp: switch_off_def split: if_splits)
  have "switch_off_hosts s1 (h # rest) = Raises RuntimeError s1"
    using assms(2,3) by (simp add: host_switch_off_def)
  with pre have "switch_off_hosts s (pre @ h # rest) = Raises RuntimeError s1"
    by (simp add: switch_off_hosts_append)
  with run show ?thesis by (simp add: switch_off_def)
qed

lemma switch_on_stops_at:
  assumes "switch_on s pre = Returns s1" and "platform_get s1 h = Inr host"
    and "\<not> is_sleeping host"
  shows "switch_on s (pre @ h # rest) = Raises RuntimeError s1"
proof -
  from assms(1) have run: "is_running s" "platform s \<noteq> None"
    and pre: "switch_on_hosts s pre = Returns s1"
    by (auto simp: switch_on_def split: if_splits)
  have "switch_on_hosts s1 (h # rest) = Raises RuntimeError s1"
    using assms(2,3) by (simp add: host_switch_on_def)
  with pre have "switch_on_hosts s (pre @ h # rest) = Raises RuntimeError s1"
    by (simp add: switch_on_hosts_append)
  with run show ?thesis by (simp add: switch_on_def)
qed

text \<open>
  C7, as the code has it: when reject_job raises, the state is unchanged. When switch_off
  or switch_on raises, the state is unchanged or it is the state that the same call on
  the hosts before the failing one returns: those hosts have been processed and their
  requests are queued, the failing host and the hosts after it are untouched. A first
  host that is not idle (for switch_off) or not sleeping (for switch_on), and a job that
  is not queued (for reject_job), raise RuntimeError with the state unchanged. At any
  position of the sequence: when the call on the hosts before a host returns a state in
  which that host is not idle (for switch_off) or not sleeping (for switch_on), the call
  on the whole sequence raises RuntimeError with exactly that state, whatever hosts
  follow.
\<close>

theorem illegal_transition_state:
  "(reject_job s jid = Raises e s' \<longrightarrow> s' = s) \<and>
   (switch_off s hs = Raises e s' \<longrightarrow>
      s' = s \<or> (\<exists>pre h' rest'. hs = pre @ h' # rest' \<and> switch_off s pre = Returns s')) \<and>
   (switch_on s hs = Raises e s' \<longrightarrow>
      s' = s \<or> (\<exists>pre h' rest'. hs = pre @ h' # rest' \<and> switch_on s pre = Returns s')) \<and>
   (is_running s \<and> platform_get s h = Inr host \<and> \<not> is_idle host \<longrightarrow>
      switch_off s (h # rest) = Raises RuntimeError s) \<and>
   (is_running s \<and> platform_get s h = Inr host \<and> \<not> is_sleeping host \<longrightarrow>
      switch_on s (h # rest) = Raises RuntimeError s) \<and>
   (is_running s \<and> job_index jid (jobs s) = Some i \<and> \<not> is_submitted (jobs s ! i) \<longrightarrow>
      reject_job s jid = Raises RuntimeError s) \<and>
   (switch_off s pre = Returns s1 \<and> platform_get s1 h = Inr host \<and> \<not> is_idle host \<longrightarrow>
      switch_off s (pre @ h # rest) = Raises RuntimeError s1) \<and>
   (switch_on s pre = Returns s2 \<and> platform_get s2 h = Inr host \<and> \<not> is_sleeping host \<longrightarrow>
      switch_on s (pre @ h # rest) = Raises RuntimeError s2)"
proof (intro conjI impI)
  assume "reject_job s jid = Raises e s'"
  then show "s' = s"
    by (auto simp: reject_job_def split: if_splits option.splits)
next
  assume a: "switch_off s hs = Raises e s'"
  show "s' = s \<or> (\<exists>pre h' rest'. hs = pre @ h' # rest' \<and> switch_off s pre = Returns s')"
  proof (cases "is_running s \<and> platform s \<noteq> None")
    case False
    with a show ?thesis by (auto simp: switch_off_def split: if_splits)
  next
    case True
    with a have "switch_off_hosts s hs = Raises e s'" by (simp add: switch_off_def)
    from switch_off_hosts_raises [OF this] True show ?thesis
      by (auto simp: switch_off_def)
  qed
next
  assume a: "switch_on s hs = Raises e s'"
  show "s' = s \<or> (\<exists>pre h' rest'. hs = pre @ h' # rest' \<and> switch_on s pre = Returns s')"
  proof (cases "is_running s \<and> platform s \<noteq> None")
    case False
    with a show ?thesis by (auto simp: switch_on_def split: if_splits)
  next
    case True
    with a have "switch_on_hosts s hs = Raises e s'" by (simp add: switch_on_def)
    from switch_on_hosts_raises [OF this] True show ?thesis
      by (auto simp: switch_on_def)
  qed
next
  assume a: "is_running s \<and> platform_get s h = Inr host \<and> \<not> is_idle host"
  then have "platform s \<noteq> None" by (auto dest: platform_get_Inr_loaded)
  with a show "switch_off s (h # rest) = Raises RuntimeError s"
    by (cases "platform s") (auto simp: switch_off_def host_switch_off_def)
next
  assume a: "is_running s \<and> platform_get s h = Inr host \<and> \<not> is_sleeping host"
  then have "platform s \<noteq> None" by (auto dest: platform_get_Inr_loaded)
  with a show "switch_on s (h # rest) = Raises RuntimeError s"
    by (cases "platform s") (auto simp: switch_on_def host_switch_on_def)
next
  assume "is_running s \<and> job_index jid (jobs s) = Some i \<and> \<not> is_submitted (jobs s ! i)"
  then show "reject_job s jid = Raises RuntimeError s"
    by (simp add: reject_job_def)
next
  assume "switch_off s pre = Returns s1 \<and> platform_get s1 h = Inr host \<and> \<not> is_idle host"
  then show "switch_off s (pre @ h # rest) = Raises RuntimeError s1"
    by (simp add: switch_off_stops_at)
next
  assume "switch_on s pre = Returns s2 \<and> platform_get s2 h = Inr host \<and> \<not> is_sleeping host"
  then show "switch_on s (pre @ h # rest) = Raises RuntimeError s2"
    by (simp add: switch_on_stops_at)
qed

lemmas eval_defs3 = switch_off_def host_switch_off_def get_sleep_pstate_def reject_job_def
  is_submitted_def

theorem illegal_transition_state_witness:
  "final (reject_job (running_handler Map.empty [job_in ''j1'' Running (Some [0])] []) ''j1'') =
     running_handler Map.empty [job_in ''j1'' Running (Some [0])] [] \<and>
   (final (switch_off (running_handler [0 \<mapsto> host_in Idle 0, 1 \<mapsto> host_in Computing 0] [] [])
            [0, 1]) =
      running_handler [0 \<mapsto> host_in Idle 0, 1 \<mapsto> host_in Computing 0] [] [] \<or>
    (\<exists>pre h' rest'. [0, 1] = pre @ h' # rest' \<and>
       switch_off (running_handler [0 \<mapsto> host_in Idle 0, 1 \<mapsto> host_in Computing 0] [] []) pre =
       Returns (final (switch_off
          (running_handler [0 \<mapsto> host_in Idle 0, 1 \<mapsto> host_in Computing 0] [] [])
          [0, 1])))) \<and>
   (final (switch_on (running_handler [0 \<mapsto> host_in Sleeping 2, 1 \<mapsto> host_in Computing 0] [] [])
            [0, 1]) =
      running_handler [0 \<mapsto> host_in Sleeping 2, 1 \<mapsto> host_in Computing 0] [] [] \<or>
    (\<exists>pre h' rest'. [0, 1] = pre @ h' # rest' \<and>
       switch_on (running_handler [0 \<mapsto> host_in Sleeping 2, 1 \<mapsto> host_in Computing 0] [] []) pre =
       Returns (final (switch_on
          (running_handler [0 \<mapsto> host_in Sleeping 2, 1 \<mapsto> host_in Computing 0] [] [])
          [0, 1])))) \<and>
   switch_off (running_handler [0 \<mapsto> host_in Idle 0, 1 \<mapsto> host_in Computing 0] [] []) [1] =
     Raises RuntimeError
       (running_handler [0 \<mapsto> host_in Idle 0, 1 \<mapsto> host_in Computing 0] [] []) \<and>
   switch_on (running_handler [0 \<mapsto> host_in Idle 0, 1 \<mapsto> host_in Computing 0] [] []) [1] =
     Raises RuntimeError
       (running_handler [0 \<mapsto> host_in Idle 0, 1 \<mapsto> host_in Computing 0] [] []) \<and>
   reject_job (running_handler Map.empty [job_in ''j1'' Running (Some [0])] []) ''j1'' =
     Raises RuntimeError (running_handler Map.empty [job_in ''j1'' Running (Some [0])] []) \<and>
   switch_off (running_handler [0 \<mapsto> host_in Idle 0, 1 \<mapsto> host_in Computing 0] [] []) [0, 1] =
     Raises RuntimeError
       (final (switch_off
          (running_handler [0 \<mapsto> host_in Idle 0, 1 \<mapsto> host_in Computing 0] [] []) [0])) \<and>
   switch_on (running_handler [0 \<mapsto> host_in Sleeping 2, 1 \<mapsto> host_in Computing 0] [] []) [0, 1] =
     Raises RuntimeError
       (final (switch_on
          (running_handler [0 \<mapsto> host_in Sleeping 2, 1 \<mapsto> host_in Computing 0] [] []) [0]))"
proof -
  let ?s = "running_handler [0 \<mapsto> host_in Idle 0, 1 \<mapsto> host_in Computing 0] [] []"
  let ?u = "running_handler [0 \<mapsto> host_in Sleeping 2, 1 \<mapsto> host_in Computing 0] [] []"
  let ?r = "running_handler Map.empty [job_in ''j1'' Running (Some [0])] []"
  have a: "switch_off ?s [0, 1] = Raises RuntimeError (final (switch_off ?s [0, 1]))"
    by (simp add: eval_defs eval_defs3)
  have a': "switch_on ?u [0, 1] = Raises RuntimeError (final (switch_on ?u [0, 1]))"
    by (simp add: eval_defs eval_defs3)
  have b: "is_running ?s \<and> platform_get ?s 1 = Inr (host_in Computing 0) \<and>
           \<not> is_idle (host_in Computing 0)"
    "is_running ?s \<and> platform_get ?s 1 = Inr (host_in Computing 0) \<and>
           \<not> is_sleeping (host_in Computing 0)"
    by (simp_all add: eval_defs)
  have c: "is_running ?r \<and> job_index ''j1'' (jobs ?r) = Some 0 \<and>
           \<not> is_submitted (jobs ?r ! 0)"
    by (simp add: eval_defs eval_defs3)
  have d: "reject_job ?r ''j1'' = Raises RuntimeError (final (reject_job ?r ''j1''))"
    by (simp add: eval_defs eval_defs3)
  have p1: "switch_off ?s [0] = Returns (final (switch_off ?s [0])) \<and>
            platform_get (final (switch_off ?s [0])) 1 = Inr (host_in Computing 0) \<and>
            \<not> is_idle (host_in Computing 0)"
    by (simp add: eval_defs eval_defs3)
  have p2: "switch_on ?u [0] = Returns (final (switch_on ?u [0])) \<and>
            platform_get (final (switch_on ?u [0])) 1 = Inr (host_in Computing 0) \<and>
            \<not> is_sleeping (host_in Computing 0)"
    by (simp add: eval_defs eval_defs3)
  note t1 = illegal_transition_state [where s = ?s and hs = "[0, 1]" and e = RuntimeError
      and s' = "final (switch_off ?s [0, 1])" and h = 1 and host = "host_in Computing 0"
      and rest = "[]" and pre = "[0]" and ?s1.0 = "final (switch_off ?s [0])"]
  note t2 = illegal_transition_state [where s = ?r and jid = "''j1''" and i = 0
      and e = RuntimeError and s' = "final (reject_job ?r ''j1'')"]
  note t3 = illegal_transition_state [where s = ?u and hs = "[0, 1]" and e = RuntimeError
      and s' = "final (switch_on ?u [0, 1])" and h = 1 and host = "host_in Computing 0"
      and rest = "[]" and pre = "[0]" and ?s2.0 = "final (switch_on ?u [0])"]
  from t2 d have "final (reject_job ?r ''j1'') = ?r" by blast
  moreover from t1 a have "final (switch_off ?s [0, 1]) = ?s \<or>
    (\<exists>pre h' rest'. [0, 1] = pre @ h' # rest' \<and>
       switch_off ?s pre = Returns (final (switch_off ?s [0, 1])))"
    by blast
  moreover from t3 a' have "final (switch_on ?u [0, 1]) = ?u \<or>
    (\<exists>pre h' rest'. [0, 1] = pre @ h' # rest' \<and>
       switch_on ?u pre = Returns (final (switch_on ?u [0, 1])))"
    by blast
  moreover from t1 b(1) have "switch_off ?s [1] = Raises RuntimeError ?s" by blast
  moreover from t1 b(2) have "switch_on ?s [1] = Raises RuntimeError ?s" by blast
  moreover from t2 c have "reject_job ?r ''j1'' = Raises RuntimeError ?r" by blast
  moreover from t1 p1 have "switch_off ?s ([0] @ 1 # []) =
      Raises RuntimeError (final (switch_off ?s [0]))" by blast
  moreover from t3 p2 have "switch_on ?u ([0] @ 1 # []) =
      Raises RuntimeError (final (switch_on ?u [0]))" by blast
  ultimately show ?thesis by simp
qed

text \<open>
  C7 as stated fails: switch_off over the hosts 0 and 1, where host 0 is idle and host 1
  is computing, raises RuntimeError at host 1 after the request for host 0 has been
  queued.
\<close>

theorem switch_off_sequence_counterexample:
  "switch_off (running_handler [0 \<mapsto> host_in Idle 0, 1 \<mapsto> host_in Computing 0] [] []) [0, 1] =
     Raises RuntimeError
       (final (switch_off
          (running_handler [0 \<mapsto> host_in Idle 0, 1 \<mapsto> host_in Computing 0] [] []) [0, 1])) \<and>
   batsim_requests (running_handler [0 \<mapsto> host_in Idle 0, 1 \<mapsto> host_in Computing 0] [] []) = [] \<and>
   batsim_requests
     (final (switch_off
        (running_handler [0 \<mapsto> host_in Idle 0, 1 \<mapsto> host_in Computing 0] [] []) [0, 1])) =
     [SetResourceState 0 {0} 2] \<and>
   final (switch_off
        (running_handler [0 \<mapsto> host_in Idle 0, 1 \<mapsto> host_in Computing 0] [] []) [0, 1]) \<noteq>
     running_handler [0 \<mapsto> host_in Idle 0, 1 \<mapsto> host_in Computing 0] [] []"
proof -
  let ?s = "running_handler [0 \<mapsto> host_in Idle 0, 1 \<mapsto> host_in Computing 0] [] []"
  have a: "switch_off ?s [0, 1] = Raises RuntimeError (final (switch_off ?s [0, 1]))"
    by (simp add: eval_defs eval_defs3)
  have b: "batsim_requests ?s = []"
    by (simp add: eval_defs)
  have c: "batsim_requests (final (switch_off ?s [0, 1])) = [SetResourceState 0 {0} 2]"
    by (simp add: eval_defs eval_defs3)
  from b c have "final (switch_off ?s [0, 1]) \<noteq> ?s" by auto
  with a b c show ?thesis by blast
qed

section \<open>The argument of proceed_time\<close>

text \<open>
  Messages sent stay sent: however a call ends, the messages sent before it are a prefix
  of the messages sent after it, and an exchange with the engine starts by flushing the
  pending requests, stamped with the current time.
\<close>

lemma outbox_set_batsim_host_pstate [simp]:
  "network_outbox (set_batsim_host_pstate s h p) = network_outbox s"
  by (simp add: set_batsim_host_pstate_def split: option.splits)

lemma outbox_platform_put [simp]: "network_outbox (platform_put i h s) = network_outbox s"
  by (simp add: platform_put_def)

lemma outbox_switch_on_hosts:
  "network_outbox (final (switch_on_hosts s hs)) = network_outbox s"
  by (induction s hs rule: switch_on_hosts.induct) (auto split: sum.splits)

lemma outbox_switch_on:
  "network_outbox (final (switch_on s hs)) = network_outbox s"
  by (simp add: switch_on_def outbox_switch_on_hosts)

lemma outbox_check_hosts:
  "network_outbox (final2 (check_hosts s hs b)) = network_outbox s"
proof (induction s hs b rule: check_hosts.induct)
  case (1 s is_ready)
  show ?case by (simp add: final2_def)
next
  case (2 s h_id rest is_ready)
  show ?case
  proof (cases "platform_get s h_id")
    case (Inl e)
    then show ?thesis by (simp add: final2_def)
  next
    case (Inr host)
    define r where "r = (if \<not> is_idle host then False else is_ready)"
    show ?thesis
    proof (cases "is_sleeping host")
      case False
      with "2.IH"(2) [OF Inr r_def False] Inr show ?thesis by (simp add: r_def Let_def)
    next
      case True
      show ?thesis
      proof (cases "switch_on s [h_id]")
        case (Returns s1)
        with "2.IH"(1) [OF Inr r_def True Returns] outbox_switch_on [of s "[h_id]"] Inr True
        show ?thesis by (simp add: r_def Let_def)
      next
        case (Raises e s1)
        with outbox_switch_on [of s "[h_id]"] Inr True show ?thesis
          by (simp add: final2_def Let_def)
      next
        case (Blocks s1)
        with outbox_switch_on [of s "[h_id]"] Inr True show ?thesis
          by (simp add: final2_def Let_def)
      qed
    qed
  qed
qed

lemma outbox_start_job: "network_outbox (final (start_job s i)) = network_outbox s"
proof (cases "allocation (jobs s ! i)")
  case None
  then show ?thesis by (simp add: start_job_def)
next
  case (Some alloc)
  show ?thesis
  proof (cases "alloc = []")
    case True
    with Some show ?thesis by (simp add: start_job_def)
  next
    case False
    with Some outbox_check_hosts [of s alloc True] show ?thesis
      by (cases "check_hosts s alloc True")
         (auto simp: start_job_def final2_def Let_def split: prod.splits)
  qed
qed

lemma outbox_start_jobs: "network_outbox (final (start_jobs s js)) = network_outbox s"
proof (induction s js rule: start_jobs.induct)
  case (1 s)
  show ?case by simp
next
  case (2 s i rest)
  show ?case
    using outbox_start_job [of s i] "2.IH"
    by (cases "start_job s i") auto
qed

lemma outbox_start_runnable_jobs:
  "network_outbox (final (start_runnable_jobs s)) = network_outbox s"
  by (simp add: start_runnable_jobs_def outbox_start_jobs)

lemma outbox_host_state_changed_hosts:
  "network_outbox (final (host_state_changed_hosts s hs st)) = network_outbox s"
  by (induction s hs st rule: host_state_changed_hosts.induct)
     (auto split: sum.splits option.splits)

lemma outbox_foldl_invoke [simp]: "network_outbox (foldl invoke s cs) = network_outbox s"
proof (induction cs arbitrary: s)
  case Nil
  show ?case by simp
next
  case (Cons c cs)
  show ?case by (cases c) (simp_all add: Cons.IH)
qed

lemma outbox_close [simp]: "network_outbox (close s) = network_outbox s"
  by (simp add: close_def)

lemma outbox_dispatch_event:
  "prefix (network_outbox s) (network_outbox (final (dispatch_event s ev)))"
proof (cases ev)
  case (JobCompleted t jid st)
  show ?thesis
    using outbox_start_runnable_jobs
    by (auto simp: JobCompleted on_batsim_job_completed_def split: option.splits sum.splits)
next
  case (ResourceStateChanged t hs st)
  show ?thesis
    using outbox_host_state_changed_hosts [of s hs st] outbox_start_runnable_jobs
    by (cases "host_state_changed_hosts s hs st")
       (auto simp: ResourceStateChanged on_batsim_host_state_changed_def)
qed (auto simp: on_batsim_simulation_begins_def on_batsim_simulation_ends_def
       on_batsim_job_submitted_def on_batsim_requested_call_def
       on_batsim_no_more_jobs_to_submit_def Let_def split: option.splits)

lemma outbox_handle_events:
  "prefix (network_outbox s) (network_outbox (final (handle_events s evs)))"
proof (induction s evs rule: handle_events.induct)
  case (1 s)
  show ?case by simp
next
  case (2 s ev evs)
  have p: "prefix (network_outbox s)
             (network_outbox (final (dispatch_event (s\<lparr>raw_time := event_timestamp ev\<rparr>) ev)))"
    using outbox_dispatch_event [of "s\<lparr>raw_time := event_timestamp ev\<rparr>" ev] by simp
  show ?case
  proof (cases "dispatch_event (s\<lparr>raw_time := event_timestamp ev\<rparr>) ev")
    case (Returns s1)
    with p "2.IH" [OF Returns] show ?thesis by (auto intro: prefix_order.trans)
  next
    case (Raises e s1)
    with p show ?thesis by simp
  next
    case (Blocks s1)
    with p show ?thesis by simp
  qed
qed

lemma outbox_handle_batsim_events:
  "prefix (network_outbox s) (network_outbox (final (handle_batsim_events s)))"
proof (cases "network_inbox s")
  case Nil
  then show ?thesis by (simp add: handle_batsim_events_def)
next
  case (Cons msg rest)
  with outbox_handle_events [of "s\<lparr>network_inbox := rest\<rparr>" "events msg"] show ?thesis
    by (cases "handle_events (s\<lparr>network_inbox := rest\<rparr>) (events msg)")
       (auto simp: handle_batsim_events_def)
qed

lemma outbox_goto_next_batsim_event:
  "prefix (network_outbox s @ [(current_time s, batsim_requests s)])
     (network_outbox (final (goto_next_batsim_event s)))"
  using outbox_handle_batsim_events [of "send_requests s"]
  by (cases "handle_batsim_events (send_requests s)")
     (auto simp: goto_next_batsim_event_def send_requests_def)

lemma outbox_proceed_loop:
  "prefix (network_outbox s) (network_outbox (final (proceed_loop s)))"
proof (induction s rule: proceed_loop.induct)
  case (1 s)
  show ?case
  proof (cases "is_running s \<and> wait_callback s")
    case False
    then show ?thesis by (subst proceed_loop.simps) auto
  next
    case True
    have g: "prefix (network_outbox s) (network_outbox (final (goto_next_batsim_event s)))"
      using outbox_goto_next_batsim_event [of s] by (auto dest: append_prefixD)
    show ?thesis
    proof (cases "goto_next_batsim_event s")
      case (Returns s1)
      note r1 = this
      show ?thesis
      proof (cases "start_runnable_jobs s1")
        case (Returns s2)
        with outbox_start_runnable_jobs [of s1] have "network_outbox s2 = network_outbox s1"
          by simp
        with "1.IH" [OF True r1 Returns] g r1 Returns True show ?thesis
          by (subst proceed_loop.simps) (auto intro: prefix_order.trans)
      next
        case (Raises e s2)
        with outbox_start_runnable_jobs [of s1] g r1 True show ?thesis
          by (subst proceed_loop.simps) auto
      next
        case (Blocks s2)
        with outbox_start_runnable_jobs [of s1] g r1 True show ?thesis
          by (subst proceed_loop.simps) auto
      qed
    next
      case (Raises e s1)
      with g True show ?thesis by (subst proceed_loop.simps) auto
    next
      case (Blocks s1)
      with g True show ?thesis by (subst proceed_loop.simps) auto
    qed
  qed
qed

lemma outbox_after_exchange:
  "prefix (network_outbox s @ [(current_time s, batsim_requests s)])
     (network_outbox (final
        (case goto_next_batsim_event s of
           Returns s1 \<Rightarrow>
             (case start_runnable_jobs s1 of
                Returns s2 \<Rightarrow> proceed_loop s2
              | Raises e s2 \<Rightarrow> Raises e s2
              | Blocks s2 \<Rightarrow> Blocks s2)
         | Raises e s1 \<Rightarrow> Raises e s1
         | Blocks s1 \<Rightarrow> Blocks s1)))"
proof (cases "goto_next_batsim_event s")
  case (Returns s1)
  note r1 = this
  have g: "prefix (network_outbox s @ [(current_time s, batsim_requests s)]) (network_outbox s1)"
    using outbox_goto_next_batsim_event [of s] r1 by simp
  show ?thesis
  proof (cases "start_runnable_jobs s1")
    case (Returns s2)
    with outbox_start_runnable_jobs [of s1] have "network_outbox s2 = network_outbox s1"
      by simp
    with outbox_proceed_loop [of s2] g r1 Returns show ?thesis
      by (auto intro: prefix_order.trans)
  next
    case (Raises e s2)
    with outbox_start_runnable_jobs [of s1] g r1 show ?thesis by simp
  next
    case (Blocks s2)
    with outbox_start_runnable_jobs [of s1] g r1 show ?thesis by simp
  qed
next
  case (Raises e s1)
  with outbox_goto_next_batsim_event [of s] show ?thesis by simp
next
  case (Blocks s1)
  with outbox_goto_next_batsim_event [of s] show ?thesis by simp
qed

lemma proceed_setup_wakes:
  assumes "is_running s" and "0 < t"
    and "truthy (simulation_time s) \<or> \<not> is_submitter_finished s \<or> jobs s \<noteq> []"
    and "current_time s < fadd t (current_time s)"
  shows "\<exists>s0. proceed_setup fadd s (Some t) = Returns s0 \<and>
              network_outbox s0 = network_outbox s \<and> current_time s0 = current_time s \<and>
              callbacks_at s0 (fadd t (current_time s)) =
                callbacks_at s (fadd t (current_time s)) @ [Unflag] \<and>
              list_ex (is_call_me_later_at (fadd t (current_time s))) (batsim_requests s0)"
proof -
  let ?a = "fadd t (current_time s)"
  let ?s1 = "s\<lparr>wait_callback := True,
               callbacks := (callbacks s)(?a \<mapsto> callbacks_at s ?a @ [Unflag])\<rparr>"
  have ct: "current_time (s\<lparr>wait_callback := True\<rparr>) = current_time s"
    "current_time ?s1 = current_time s"
    by (simp_all add: current_time_def)
  have at: "callbacks_at (s\<lparr>wait_callback := True\<rparr>) ?a = callbacks_at s ?a"
    by (simp add: callbacks_at_def)
  have run: "is_running (s\<lparr>wait_callback := True\<rparr>)"
    using assms(1) by (simp add: is_running_def)
  have "proceed_setup fadd s (Some t) = Returns (set_batsim_call_me_later ?s1 ?a)"
    using assms(2-4) run
    by (auto simp add: proceed_setup_def set_callback_def ct at)
  moreover have "network_outbox (set_batsim_call_me_later ?s1 ?a) = network_outbox s"
    by (simp add: set_batsim_call_me_later_def)
  moreover have "current_time (set_batsim_call_me_later ?s1 ?a) = current_time s"
    by (simp add: set_batsim_call_me_later_def current_time_def)
  moreover have "callbacks_at (set_batsim_call_me_later ?s1 ?a) ?a = callbacks_at s ?a @ [Unflag]"
    by (simp add: callbacks_at_def)
  moreover have "list_ex (is_call_me_later_at ?a)
                   (batsim_requests (set_batsim_call_me_later ?s1 ?a))"
    using assms(4) by (simp add: set_batsim_call_me_later_def ct)
  ultimately show ?thesis by blast
qed

lemma proceed_time_exchange:
  assumes "is_running s" and "0 < t" and "proceed_setup fadd s (Some t) = Returns s0"
  shows "proceed_time fadd s (Some t) =
      (case goto_next_batsim_event s0 of
           Returns s1 \<Rightarrow>
             (case start_runnable_jobs s1 of
                Returns s2 \<Rightarrow> proceed_loop s2
              | Raises e s2 \<Rightarrow> Raises e s2
              | Blocks s2 \<Rightarrow> Blocks s2)
         | Raises e s1 \<Rightarrow> Raises e s1
         | Blocks s1 \<Rightarrow> Blocks s1)"
  using assms by (simp add: proceed_time_def truthy_def)

text \<open>
  C4, as the code has it: the argument of proceed_time is a duration, which the code
  compares with zero and adds to the current time. While the simulation is running, a
  negative duration raises ValueError and leaves the state, and so the transport,
  untouched. For a positive duration, whatever the current time is: when a time limit is
  set, the submitter has not finished or a job is outstanding, and the float sum of the
  duration and the current time is greater than the current time, the call registers
  \<^verbatim>\<open>unflag\<close> at that sum and, however it ends, has first flushed a request batch,
  stamped with the current time, that holds a call-me-later request for that sum; when no
  time limit is set, the submitter has finished and no job is outstanding, the call
  registers nothing and has first flushed the pending requests as they were.
\<close>

theorem proceed_time_argument:
  "(is_running s \<and> t < 0 \<longrightarrow> proceed_time fadd s (Some t) = Raises ValueError s) \<and>
   (is_running s \<and> 0 < t \<and>
    (truthy (simulation_time s) \<or> \<not> is_submitter_finished s \<or> jobs s \<noteq> []) \<and>
    current_time s < fadd t (current_time s) \<longrightarrow>
      (\<exists>s0. proceed_setup fadd s (Some t) = Returns s0 \<and>
            callbacks_at s0 (fadd t (current_time s)) =
              callbacks_at s (fadd t (current_time s)) @ [Unflag] \<and>
            list_ex (is_call_me_later_at (fadd t (current_time s))) (batsim_requests s0) \<and>
            prefix (network_outbox s @ [(current_time s, batsim_requests s0)])
                   (network_outbox (final (proceed_time fadd s (Some t)))))) \<and>
   (is_running s \<and> 0 < t \<and>
    \<not> truthy (simulation_time s) \<and> is_submitter_finished s \<and> jobs s = [] \<longrightarrow>
      proceed_setup fadd s (Some t) = Returns (s\<lparr>wait_callback := False\<rparr>) \<and>
      prefix (network_outbox s @ [(current_time s, batsim_requests s)])
             (network_outbox (final (proceed_time fadd s (Some t)))))"
proof (intro conjI impI)
  assume "is_running s \<and> t < 0"
  then show "proceed_time fadd s (Some t) = Raises ValueError s"
    by (simp add: proceed_time_def truthy_def)
next
  assume a: "is_running s \<and> 0 < t \<and>
    (truthy (simulation_time s) \<or> \<not> is_submitter_finished s \<or> jobs s \<noteq> []) \<and>
    current_time s < fadd t (current_time s)"
  then obtain s0 where s0: "proceed_setup fadd s (Some t) = Returns s0"
    "network_outbox s0 = network_outbox s" "current_time s0 = current_time s"
    "callbacks_at s0 (fadd t (current_time s)) =
       callbacks_at s (fadd t (current_time s)) @ [Unflag]"
    "list_ex (is_call_me_later_at (fadd t (current_time s))) (batsim_requests s0)"
    using proceed_setup_wakes [of s t fadd] by blast
  from a s0(1) outbox_after_exchange [of s0] s0(2,3)
  have "prefix (network_outbox s @ [(current_time s, batsim_requests s0)])
          (network_outbox (final (proceed_time fadd s (Some t))))"
    by (simp add: proceed_time_exchange)
  with s0(1,4,5)
  show "\<exists>s0. proceed_setup fadd s (Some t) = Returns s0 \<and>
            callbacks_at s0 (fadd t (current_time s)) =
              callbacks_at s (fadd t (current_time s)) @ [Unflag] \<and>
            list_ex (is_call_me_later_at (fadd t (current_time s))) (batsim_requests s0) \<and>
            prefix (network_outbox s @ [(current_time s, batsim_requests s0)])
                   (network_outbox (final (proceed_time fadd s (Some t))))"
    by blast
next
  assume a: "is_running s \<and> 0 < t \<and>
    \<not> truthy (simulation_time s) \<and> is_submitter_finished s \<and> jobs s = []"
  then show s0: "proceed_setup fadd s (Some t) = Returns (s\<lparr>wait_callback := False\<rparr>)"
    by (simp add: proceed_setup_def)
  have "current_time (s\<lparr>wait_callback := False\<rparr>) = current_time s"
    by (simp add: current_time_def)
  with a s0 outbox_after_exchange [of "s\<lparr>wait_callback := False\<rparr>"]
  show "prefix (network_outbox s @ [(current_time s, batsim_requests s)])
             (network_outbox (final (proceed_time fadd s (Some t))))"
    by (simp add: proceed_time_exchange)
qed

lemma round1_15: "round1 15 = 15"
  by code_simp

lemmas eval_defs4 = proceed_time_def proceed_setup_def truthy_def set_callback_def
  set_batsim_call_me_later_def goto_next_batsim_event_def send_requests_def
  handle_batsim_events_def on_batsim_requested_call_def time_limit_reached_def
  is_submitter_finished_def callbacks_at_def round1_10 round1_15

theorem proceed_time_argument_witness:
  "proceed_time (+) ((running_handler Map.empty [] [])\<lparr>raw_time := 10\<rparr>) (Some (- 1)) =
     Raises ValueError ((running_handler Map.empty [] [])\<lparr>raw_time := 10\<rparr>) \<and>
   (\<exists>s0. proceed_setup (+) ((running_handler Map.empty [] [])\<lparr>raw_time := 10\<rparr>) (Some 5) =
           Returns s0 \<and>
         callbacks_at s0 15 = [Unflag] \<and>
         list_ex (is_call_me_later_at 15) (batsim_requests s0) \<and>
         prefix [(10, batsim_requests s0)]
           (network_outbox (final (proceed_time (+)
              ((running_handler Map.empty [] [])\<lparr>raw_time := 10\<rparr>) (Some 5))))) \<and>
   prefix [(10, [])]
     (network_outbox (final (proceed_time (+)
        ((running_handler Map.empty [] [])\<lparr>raw_time := 10, no_more_jobs_to_submit := True\<rparr>)
        (Some 5))))"
proof -
  let ?s = "(running_handler Map.empty [] [])\<lparr>raw_time := 10\<rparr>"
  let ?u = "(running_handler Map.empty [] [])\<lparr>raw_time := 10, no_more_jobs_to_submit := True\<rparr>"
  have ct: "current_time ?s = 10" "current_time ?u = 10"
    by (simp_all add: current_time_def round1_10)
  have r: "is_running ?s" "is_running ?u" by (simp_all add: eval_defs)
  have "is_running ?s \<and> (- 1 :: rat) < 0" using r by simp
  with proceed_time_argument [of ?s "- 1" "(+)"]
  have a: "proceed_time (+) ?s (Some (- 1)) = Raises ValueError ?s" by blast
  have "is_running ?s \<and> (0 :: rat) < 5 \<and>
    (truthy (simulation_time ?s) \<or> \<not> is_submitter_finished ?s \<or> jobs ?s \<noteq> []) \<and>
    current_time ?s < 5 + current_time ?s"
    using r by (simp add: eval_defs is_submitter_finished_def)
  with proceed_time_argument [of ?s 5 "(+)"]
  have "\<exists>s0. proceed_setup (+) ?s (Some 5) = Returns s0 \<and>
            callbacks_at s0 (5 + current_time ?s) =
              callbacks_at ?s (5 + current_time ?s) @ [Unflag] \<and>
            list_ex (is_call_me_later_at (5 + current_time ?s)) (batsim_requests s0) \<and>
            prefix (network_outbox ?s @ [(current_time ?s, batsim_requests s0)])
                   (network_outbox (final (proceed_time (+) ?s (Some 5))))"
    by blast
  moreover have "callbacks_at ?s 15 = []" "network_outbox ?s = []"
    by (simp_all add: callbacks_at_def eval_defs)
  ultimately have b: "\<exists>s0. proceed_setup (+) ?s (Some 5) = Returns s0 \<and>
         callbacks_at s0 15 = [Unflag] \<and>
         list_ex (is_call_me_later_at 15) (batsim_requests s0) \<and>
         prefix [(10, batsim_requests s0)]
           (network_outbox (final (proceed_time (+) ?s (Some 5))))"
    by (simp add: ct)
  have "is_running ?u \<and> (0 :: rat) < 5 \<and>
    \<not> truthy (simulation_time ?u) \<and> is_submitter_finished ?u \<and> jobs ?u = []"
    using r by (simp add: eval_defs is_submitter_finished_def truthy_def)
  with proceed_time_argument [of ?u 5 "(+)"]
  have "prefix (network_outbox ?u @ [(current_time ?u, batsim_requests ?u)])
             (network_outbox (final (proceed_time (+) ?u (Some 5))))"
    by blast
  moreover have "network_outbox ?u = []" "batsim_requests ?u = []"
    by (simp_all add: eval_defs)
  ultimately have c: "prefix [(10, [])]
     (network_outbox (final (proceed_time (+) ?u (Some 5))))"
    by (simp add: ct)
  from a b c show ?thesis by blast
qed

text \<open>
  C4 as stated fails: at the current time 10, proceed_time(5) does not raise. The float
  sum of 5 and 10 is 15 exactly. The call registers its wake-up at 15, flushes the
  call-me-later request, receives the engine's message and returns.
\<close>

theorem proceed_time_past_target_counterexample:
  "(5::rat) \<le> current_time
     ((running_handler Map.empty [] [\<lparr>now = 15, events = [RequestedCall 15]\<rparr>])
        \<lparr>raw_time := 10\<rparr>) \<and>
   is_running ((running_handler Map.empty [] [\<lparr>now = 15, events = [RequestedCall 15]\<rparr>])
        \<lparr>raw_time := 10\<rparr>) \<and>
   proceed_time (+) ((running_handler Map.empty [] [\<lparr>now = 15, events = [RequestedCall 15]\<rparr>])
        \<lparr>raw_time := 10\<rparr>) (Some 5) =
     Returns (final (proceed_time (+)
        ((running_handler Map.empty [] [\<lparr>now = 15, events = [RequestedCall 15]\<rparr>])
           \<lparr>raw_time := 10\<rparr>) (Some 5))) \<and>
   network_outbox (final (proceed_time (+)
        ((running_handler Map.empty [] [\<lparr>now = 15, events = [RequestedCall 15]\<rparr>])
           \<lparr>raw_time := 10\<rparr>) (Some 5))) = [(10, [CallMeLater 10 15])] \<and>
   network_inbox (final (proceed_time (+)
        ((running_handler Map.empty [] [\<lparr>now = 15, events = [RequestedCall 15]\<rparr>])
           \<lparr>raw_time := 10\<rparr>) (Some 5))) = []"
  by (simp add: eval_defs eval_defs4)

section \<open>Advancing to the next event with nothing outstanding\<close>

text \<open>
  C5: the docstring of proceed_time promises a RuntimeError when a deadlock happens, that
  is when there are no more events to happen and no time was specified. The code has no
  such check. On a running handler with nothing that will produce an event and no engine
  message to come, proceed_time() flushes an empty request batch and then waits in
  \<^verbatim>\<open>recv\<close>: the call never returns and raises nothing.
\<close>

theorem proceed_time_blocks_without_events:
  "is_running stalled_handler \<and>
   simulation_time stalled_handler = None \<and>
   is_submitter_finished stalled_handler \<and>
   map jstate (jobs stalled_handler) = [Submitted] \<and>
   batsim_requests stalled_handler = [] \<and>
   callbacks stalled_handler = Map.empty \<and>
   network_inbox stalled_handler = [] \<and>
   proceed_time fadd stalled_handler None =
     Blocks (final (proceed_time fadd stalled_handler None)) \<and>
   network_outbox (final (proceed_time fadd stalled_handler None)) = [(0, [])]"
  by (simp add: stalled_handler_def eval_defs eval_defs4)

section \<open>Starting again after a run\<close>

lemmas eval_defs5 = start_def close_def first_run_begins_def second_run_begins_def
  on_batsim_simulation_begins_def

text \<open>
  C8: start fails when the engine's first message loads no platform, on a fresh handler.
  But neither start nor close resets the platform mirror: after a first run and close, a
  second start whose first message carries no simulation-begins event finds the platform
  of the first run, passes the check and returns with the stale platform.
\<close>

theorem start_keeps_stale_platform:
  "start (handler_init [second_run_begins]) None =
     Raises RuntimeError (final (start (handler_init [second_run_begins]) None)) \<and>
   start (handler_init [first_run_begins, second_run_begins]) None =
     Returns (final (start (handler_init [first_run_begins, second_run_begins]) None)) \<and>
   start (close (final (start (handler_init [first_run_begins, second_run_begins]) None))) None =
     Returns (final (start
        (close (final (start (handler_init [first_run_begins, second_run_begins]) None)))
        None)) \<and>
   platform (final (start
        (close (final (start (handler_init [first_run_begins, second_run_begins]) None)))
        None)) = Some [0 \<mapsto> host_in Idle 0]"
  by (simp add: eval_defs eval_defs4 eval_defs5)

section \<open>One request for each instant and destination power state\<close>

lemma set_host_pstates_Cons:
  "set_host_pstates s ((h, p) # T) = set_host_pstates (set_batsim_host_pstate s h p) T"
  by (simp add: set_host_pstates_def)

lemma set_host_pstates_Nil [simp]: "set_host_pstates s [] = s"
  by (simp add: set_host_pstates_def)

lemma set_host_pstates_append:
  "set_host_pstates s (T1 @ T2) = set_host_pstates (set_host_pstates s T1) T2"
  by (simp add: set_host_pstates_def)

lemma default_of_set_batsim_host_pstate [simp]:
  "default_of (set_batsim_host_pstate s h p) = default_of s"
  by (rule ext) (simp add: default_of_def)

lemma sleep_of_set_batsim_host_pstate [simp]:
  "sleep_of (set_batsim_host_pstate s h p) = sleep_of s"
  by (rule ext) (simp add: sleep_of_def)

lemma switch_on_hosts_queue:
  "switch_on_hosts s hs = Returns s' \<Longrightarrow>
   s' = set_host_pstates s (action_targets s (SwitchOn hs))"
proof (induction s hs rule: switch_on_hosts.induct)
  case (1 s)
  then show ?case by (simp add: map_filter_simps)
next
  case (2 s h_id rest)
  from "2.prems" obtain host where g: "platform_get s h_id = Inr host"
    by (cases "platform_get s h_id") auto
  from "2.prems" g obtain host' where on: "host_switch_on host = Inr host'"
    by (cases "host_switch_on host") auto
  then have same: "host' = host" by (rule host_switch_on_same)
  from "2.prems" g on obtain p where p: "get_default_pstate host' = Inr p"
    by (cases "get_default_pstate host'") auto
  let ?s1 = "set_batsim_host_pstate (platform_put h_id host' s) h_id p"
  have s1: "?s1 = set_batsim_host_pstate s h_id p"
    using g same by (simp add: platform_put_same)
  from "2.prems" g on p have rec: "switch_on_hosts ?s1 rest = Returns s'" by simp
  from "2.IH" [OF g on p rec]
  have "s' = set_host_pstates (set_batsim_host_pstate s h_id p)
               (action_targets s (SwitchOn rest))"
    by (simp add: s1)
  moreover have "default_of s h_id = Some p"
    using g p same by (auto simp: default_of_def get_default_pstate_def split: option.splits)
  ultimately show ?case
    by (simp add: map_filter_simps set_host_pstates_Cons)
qed

lemma switch_off_hosts_queue:
  "switch_off_hosts s hs = Returns s' \<Longrightarrow>
   s' = set_host_pstates s (action_targets s (SwitchOff hs))"
proof (induction s hs rule: switch_off_hosts.induct)
  case (1 s)
  then show ?case by (simp add: map_filter_simps)
next
  case (2 s h_id rest)
  from "2.prems" obtain host where g: "platform_get s h_id = Inr host"
    by (cases "platform_get s h_id") auto
  from "2.prems" g obtain host' where off: "host_switch_off host = Inr host'"
    by (cases "host_switch_off host") auto
  then have same: "host' = host" by (rule host_switch_off_same)
  from "2.prems" g off obtain p where p: "get_sleep_pstate host' = Inr p"
    by (cases "get_sleep_pstate host'") auto
  let ?s1 = "set_batsim_host_pstate (platform_put h_id host' s) h_id p"
  have s1: "?s1 = set_batsim_host_pstate s h_id p"
    using g same by (simp add: platform_put_same)
  from "2.prems" g off p have rec: "switch_off_hosts ?s1 rest = Returns s'" by simp
  from "2.IH" [OF g off p rec]
  have "s' = set_host_pstates (set_batsim_host_pstate s h_id p)
               (action_targets s (SwitchOff rest))"
    by (simp add: s1)
  moreover have "sleep_of s h_id = Some p"
    using g p same by (auto simp: sleep_of_def get_sleep_pstate_def split: option.splits)
  ultimately show ?case
    by (simp add: map_filter_simps set_host_pstates_Cons)
qed

lemma requests_cong_one:
  "raw_time s1 = raw_time s2 \<Longrightarrow> batsim_requests s1 = batsim_requests s2 \<Longrightarrow>
   batsim_requests (set_batsim_host_pstate s1 h p) =
   batsim_requests (set_batsim_host_pstate s2 h p)"
  by (simp add: set_batsim_host_pstate_def current_time_def split: option.splits)

lemma requests_cong:
  "raw_time s1 = raw_time s2 \<Longrightarrow> batsim_requests s1 = batsim_requests s2 \<Longrightarrow>
   batsim_requests (set_host_pstates s1 T) = batsim_requests (set_host_pstates s2 T)"
proof (induction T arbitrary: s1 s2)
  case Nil
  then show ?case by simp
next
  case (Cons a T)
  obtain h p where a: "a = (h, p)" by (cases a)
  have "raw_time (set_batsim_host_pstate s1 h p) = raw_time (set_batsim_host_pstate s2 h p)"
    using Cons.prems by simp
  moreover have "batsim_requests (set_batsim_host_pstate s1 h p) =
                 batsim_requests (set_batsim_host_pstate s2 h p)"
    using Cons.prems by (rule requests_cong_one)
  ultimately show ?case
    unfolding a set_host_pstates_Cons by (rule Cons.IH)
qed

lemma raw_time_set_host_pstates [simp]: "raw_time (set_host_pstates s T) = raw_time s"
proof (induction T arbitrary: s)
  case Nil
  show ?case by simp
next
  case (Cons a T)
  obtain h p where a: "a = (h, p)" by (cases a)
  show ?case unfolding a set_host_pstates_Cons by (simp add: Cons.IH)
qed

lemma same_catalog_set_host_pstates: "same_catalog s (set_host_pstates s T)"
proof (induction T arbitrary: s)
  case Nil
  show ?case by (simp add: same_catalog_def)
next
  case (Cons a T)
  obtain h p where a: "a = (h, p)" by (cases a)
  from Cons.IH [of "set_batsim_host_pstate s h p"] show ?case
    unfolding a set_host_pstates_Cons by (simp add: same_catalog_def)
qed

lemma same_catalog_trans: "same_catalog s s1 \<Longrightarrow> same_catalog s1 s2 \<Longrightarrow> same_catalog s s2"
  by (simp add: same_catalog_def)

lemma action_targets_same_catalog:
  "same_catalog s s' \<Longrightarrow> action_targets s' a = action_targets s a"
  by (cases a) (simp_all add: same_catalog_def)

lemma do_power_action_queue:
  assumes "do_power_action s a = Returns s'"
  shows "same_catalog s s' \<and>
         batsim_requests s' = batsim_requests (set_host_pstates s (action_targets s a))"
proof (cases a)
  case (SwitchOn hs)
  with assms have "switch_on_hosts s hs = Returns s'"
    by (auto simp: switch_on_def split: if_splits)
  from switch_on_hosts_queue [OF this] SwitchOn show ?thesis
    by (simp add: same_catalog_set_host_pstates)
next
  case (SwitchOff hs)
  with assms have "switch_off_hosts s hs = Returns s'"
    by (auto simp: switch_off_def split: if_splits)
  from switch_off_hosts_queue [OF this] SwitchOff show ?thesis
    by (simp add: same_catalog_set_host_pstates)
next
  case (SwitchPowerState h p)
  with assms have sw: "switch_power_state s h p = Returns s'" by simp
  then obtain host where g: "platform_get s h = Inr host"
    by (cases "platform_get s h") (auto simp: switch_power_state_def split: if_splits)
  from sw g obtain host' where c: "host_set_computation_pstate host p = Inr host'"
    by (cases "host_set_computation_pstate host p")
       (auto simp: switch_power_state_def split: if_splits)
  then have host': "host' = host\<lparr>pstate := Some p\<rparr>"
    by (auto simp: host_set_computation_pstate_def split: if_splits)
  from sw g c host' have s': "s' = set_batsim_host_pstate (platform_put h host' s) h p"
    by (auto simp: switch_power_state_def split: if_splits)
  have ne: "platform s \<noteq> None" using g by (rule platform_get_Inr_loaded)
  have "default_of (platform_put h host' s) = default_of s"
    using g ne by (auto simp: default_of_def platform_get_platform_put host' intro!: ext)
  moreover have "sleep_of (platform_put h host' s) = sleep_of s"
    using g ne by (auto simp: sleep_of_def platform_get_platform_put host' intro!: ext)
  moreover have "batsim_requests (set_batsim_host_pstate (platform_put h host' s) h p) =
                 batsim_requests (set_batsim_host_pstate s h p)"
    by (rule requests_cong_one) (simp_all add: platform_put_def)
  ultimately show ?thesis
    unfolding s' SwitchPowerState
    by (simp add: same_catalog_def set_host_pstates_Cons platform_put_def)
qed

lemma do_power_actions_queue:
  "do_power_actions s acts = Returns s' \<Longrightarrow>
   same_catalog s s' \<and>
   batsim_requests s' = batsim_requests (set_host_pstates s (all_targets s acts))"
proof (induction s acts rule: do_power_actions.induct)
  case (1 s)
  then show ?case by (simp add: all_targets_def same_catalog_def)
next
  case (2 s a as)
  from "2.prems" obtain s1 where one: "do_power_action s a = Returns s1"
    and rec: "do_power_actions s1 as = Returns s'"
    by (auto split: outcome.splits)
  note q = do_power_action_queue [OF one]
  note ih = "2.IH" [OF one rec]
  from q have sc: "same_catalog s s1" by simp
  have "action_targets s1 = action_targets s"
    by (rule ext) (rule action_targets_same_catalog [OF sc])
  then have tg: "all_targets s1 as = all_targets s as"
    by (simp add: all_targets_def)
  have "batsim_requests (set_host_pstates s1 (all_targets s as)) =
        batsim_requests (set_host_pstates (set_host_pstates s (action_targets s a))
                           (all_targets s as))"
    using q by (intro requests_cong) (simp_all add: same_catalog_def)
  with ih tg have "batsim_requests s' =
      batsim_requests (set_host_pstates s (action_targets s a @ all_targets s as))"
    by (simp add: set_host_pstates_append)
  moreover have "all_targets s (a # as) = action_targets s a @ all_targets s as"
    by (simp add: all_targets_def)
  ultimately show ?case using q ih by (auto intro: same_catalog_trans)
qed

text \<open>
  C3: after any sequence of switch_on, switch_off and switch_power_state calls that all
  return, issued at one instant, starting with no pending request for that instant and
  the destination power state \<open>p\<close>, and with at least one host targeted at \<open>p\<close>,
  the pending requests hold exactly one set-resource-state request for that instant and
  \<open>p\<close>, and its host set is the set of all hosts that the calls targeted at
  \<open>p\<close>. Calls with other destinations may be mixed in.
\<close>

theorem power_requests_coalesced:
  assumes "do_power_actions s acts = Returns s'"
    and "filter (is_old_request (current_time s) p) (batsim_requests s) = []"
    and "(h, p) \<in> set (all_targets s acts)"
  shows "filter (is_old_request (current_time s) p) (batsim_requests s') =
         [SetResourceState (current_time s) {h'. (h', p) \<in> set (all_targets s acts)} p]"
proof -
  from do_power_actions_queue [OF assms(1)]
  have "batsim_requests s' = batsim_requests (set_host_pstates s (all_targets s acts))"
    by simp
  with pending_set_host_pstates [OF assms(2), of "all_targets s acts"] assms(3)
  show ?thesis by auto
qed

lemmas eval_defs6 = all_targets_def default_of_def sleep_of_def map_filter_simps
  switch_power_state_def host_set_computation_pstate_def is_computing_def

theorem power_requests_coalesced_witness:
  "filter (is_old_request 0 0)
     (batsim_requests (final (do_power_actions
        (running_handler
           [0 \<mapsto> host_in Sleeping 2, 1 \<mapsto> host_in Sleeping 2, 2 \<mapsto> host_in Idle 1] [] [])
        [SwitchOn [0, 1], SwitchPowerState 2 0]))) =
   [SetResourceState 0 {0, 1, 2} 0]"
proof -
  let ?s = "running_handler
              [0 \<mapsto> host_in Sleeping 2, 1 \<mapsto> host_in Sleeping 2, 2 \<mapsto> host_in Idle 1] [] []"
  let ?acts = "[SwitchOn [0, 1], SwitchPowerState 2 0]"
  have run: "do_power_actions ?s ?acts = Returns (final (do_power_actions ?s ?acts))"
    by (simp add: eval_defs eval_defs6)
  have ct: "current_time ?s = 0" by (simp add: eval_defs)
  have none: "filter (is_old_request (current_time ?s) 0) (batsim_requests ?s) = []"
    by (simp add: eval_defs)
  have tg: "all_targets ?s ?acts = [(0, 0), (1, 0), (2, 0)]"
    by (simp add: eval_defs eval_defs6)
  have m: "(2, 0) \<in> set (all_targets ?s ?acts)" unfolding tg by simp
  have hs: "{h'. (h', 0::nat) \<in> set (all_targets ?s ?acts)} = {0, 1, 2::nat}"
    unfolding tg by auto
  from power_requests_coalesced [OF run none m] show ?thesis
    by (simp only: hs ct)
qed

end
